theory Spec2Isabelle
  imports Complex_Main "HOL-Library.AList" "HOL-Library.Sublist" "HOL-Library.Log_Nat"
begin

section \<open>Python text primitives\<close>

text \<open>
  Python strings are modelled as \<open>string\<close>; the text handled here is therefore restricted
  to code points below 256. The character classes below are the ones the Python built-ins
  use on that range.
\<close>

definition LF :: char where
  "LF = CHR 0x0A"

definition CR :: char where
  "CR = CHR 0x0D"

definition is_linebreak :: "char \<Rightarrow> bool" where
  \<comment> \<open>the line boundaries of \<open>str.splitlines\<close>\<close>
  "is_linebreak c \<longleftrightarrow> c \<in> set [CHR 0x0A, CHR 0x0B, CHR 0x0C, CHR 0x0D,
                                   CHR 0x1C, CHR 0x1D, CHR 0x1E, CHR 0x85]"

definition is_space :: "char \<Rightarrow> bool" where
  \<comment> \<open>\<open>str.isspace\<close>, as used by \<open>strip()\<close> and \<open>split()\<close> without argument\<close>
  "is_space c \<longleftrightarrow> c \<in> set [CHR 0x09, CHR 0x0A, CHR 0x0B, CHR 0x0C, CHR 0x0D,
                              CHR 0x1C, CHR 0x1D, CHR 0x1E, CHR 0x1F, CHR 0x20,
                              CHR 0x85, CHR 0xA0]"

definition lstrip :: "string \<Rightarrow> string" where
  "lstrip s = dropWhile is_space s"

definition rstrip :: "string \<Rightarrow> string" where
  "rstrip s = rev (dropWhile is_space (rev s))"

definition strip :: "string \<Rightarrow> string" where
  "strip s = rstrip (lstrip s)"

fun splitlines_from :: "string \<Rightarrow> string \<Rightarrow> string list" where
  "splitlines_from cur [] = (if cur = [] then [] else [cur])"
| "splitlines_from cur [c] = (if is_linebreak c then [cur] else [cur @ [c]])"
| "splitlines_from cur (c # d # ds) =
     (if c = CR \<and> d = LF then cur # splitlines_from [] ds
      else if is_linebreak c then cur # splitlines_from [] (d # ds)
      else splitlines_from (cur @ [c]) (d # ds))"

definition splitlines :: "string \<Rightarrow> string list" where
  "splitlines s = splitlines_from [] s"

fun join_nl :: "string list \<Rightarrow> string" where
  \<comment> \<open>\<open>"\\n".join(lines)\<close>\<close>
  "join_nl [] = []"
| "join_nl [l] = l"
| "join_nl (l # l' # ls) = l @ LF # join_nl (l' # ls)"

section \<open>Configuration (config.py)\<close>

definition CHARS_PER_CHUNK :: nat where
  "CHARS_PER_CHUNK = 9000"

definition MOMENT_SAFETY_LIMIT :: nat where
  "MOMENT_SAFETY_LIMIT = 5"

definition MAX_MOMENTS_PER_CHUNK :: nat where
  "MAX_MOMENTS_PER_CHUNK = 3"

definition CACHE_ENABLED :: bool where
  "CACHE_ENABLED = True"

definition CACHE_DIR :: string where
  "CACHE_DIR = ''.nio_cache''"

section \<open>Chunking (llm\_client.py, extract\_moments)\<close>

text \<open>
  The loop over \<open>transcript.splitlines()\<close> keeps the pair \<open>(chunks, current)\<close>. A chunk is
  kept as its list of lines until it is joined with newlines.
\<close>

definition chunk_step :: "nat \<Rightarrow> string list list \<times> string list \<Rightarrow> string
                          \<Rightarrow> string list list \<times> string list" where
  "chunk_step max_chunk_chars st line =
     (case st of (chunks, current) \<Rightarrow>
        if sum_list (map length current) + length line + 1 > max_chunk_chars
        then (if current \<noteq> [] then (chunks @ [current], [line])
              else (chunks, current @ [line]))
        else (chunks, current @ [line]))"

definition chunk_lines :: "nat \<Rightarrow> string list \<Rightarrow> string list list" where
  "chunk_lines max_chunk_chars lines =
     (case foldl (chunk_step max_chunk_chars) ([], []) lines of
        (chunks, current) \<Rightarrow> if current \<noteq> [] then chunks @ [current] else chunks)"

definition chunk_transcript :: "nat \<Rightarrow> string \<Rightarrow> string list" where
  "chunk_transcript max_chunk_chars transcript =
     map join_nl (chunk_lines max_chunk_chars (splitlines transcript))"

text \<open>A transcript of 183 lines of 49 letters each, as a test input for the chunker.\<close>

definition demo_lines :: "string list" where
  "demo_lines = replicate 183 (replicate 49 CHR ''a'')"


text \<open>The bound the loop keeps on a chunk: one line, or the lines' characters plus one within the maximum.\<close>

definition chunk_ok :: "nat \<Rightarrow> string list \<Rightarrow> bool" where
  "chunk_ok mx c \<longleftrightarrow> length c = 1 \<or> sum_list (map length c) + 1 \<le> mx"


section \<open>Python values and exceptions\<close>

datatype exn = TypeError | AttributeError | ValueError | OverflowError | RuntimeError
             | OSError | LLMError

text \<open>
  A Python \<open>float\<close> is a rational number (every finite binary64 value is one), an
  infinity or not-a-number.
\<close>

datatype pyfloat = Finite rat | Inf bool | NaN

text \<open>
  The values \<open>json.loads\<close> returns: \<open>None\<close>, \<open>bool\<close>, \<open>int\<close>, \<open>float\<close>, \<open>str\<close>,
  \<open>list\<close> and \<open>dict\<close>. A dict is an association list in insertion order; \<open>d[k] = v\<close>
  is \<open>AList.update\<close> (an existing key keeps its place, a new key goes last) and \<open>d.get(k)\<close>
  is \<open>map_of\<close>.
\<close>

datatype 'c gjson = JNull | JBool bool | JInt int | JFloat pyfloat | JStr "'c list"
                  | JArr "'c gjson list" | JObj "(string \<times> 'c gjson) list"

text \<open>
  The parser and the exporter work on the values with 8-bit strings, \<open>json\<close>. The type is
  general in the characters of its string values for the sake of the cache, which stores
  and reloads values without looking into them and is stated for any characters.
\<close>

type_synonym json = "char gjson"

fun truthy :: "json \<Rightarrow> bool" where
  "truthy JNull = False"
| "truthy (JBool b) = b"
| "truthy (JInt n) = (n \<noteq> 0)"
| "truthy (JFloat f) = (f \<noteq> Finite 0)"
| "truthy (JStr s) = (s \<noteq> [])"
| "truthy (JArr xs) = (xs \<noteq> [])"
| "truthy (JObj kvs) = (kvs \<noteq> [])"

definition dict_get :: "(string \<times> json) list \<Rightarrow> string \<Rightarrow> json" where
  \<comment> \<open>\<open>d.get(k)\<close>, with \<open>None\<close> for a missing key\<close>
  "dict_get d k = (case map_of d k of None \<Rightarrow> JNull | Some v \<Rightarrow> v)"

definition dict_get_default :: "(string \<times> json) list \<Rightarrow> string \<Rightarrow> json \<Rightarrow> json" where
  \<comment> \<open>\<open>d.get(k, default)\<close>\<close>
  "dict_get_default d k dflt = (case map_of d k of None \<Rightarrow> dflt | Some v \<Rightarrow> v)"

definition setdefault :: "string \<Rightarrow> json \<Rightarrow> (string \<times> json) list \<Rightarrow> (string \<times> json) list" where
  \<comment> \<open>\<open>d.setdefault(k, v)\<close>: only a missing key is set\<close>
  "setdefault k v d = (case map_of d k of None \<Rightarrow> AList.update k v d | Some _ \<Rightarrow> d)"

definition has_key :: "string \<Rightarrow> (string \<times> json) list \<Rightarrow> bool" where
  \<comment> \<open>\<open>k in d\<close>\<close>
  "has_key k d \<longleftrightarrow> map_of d k \<noteq> None"

fun py_iter :: "json \<Rightarrow> exn + json list" where
  \<comment> \<open>what a \<open>for\<close> loop over the value runs through: the elements of a list, the keys of
      a dict, the characters of a string; any other value is not iterable\<close>
  "py_iter (JArr xs) = Inr xs"
| "py_iter (JObj kvs) = Inr (map (JStr \<circ> fst) kvs)"
| "py_iter (JStr s) = Inr (map (\<lambda>c. JStr [c]) s)"
| "py_iter _ = Inl TypeError"

subsection \<open>Words and integers of a string\<close>

fun split_from :: "string \<Rightarrow> string \<Rightarrow> string list" where
  "split_from cur [] = (if cur = [] then [] else [cur])"
| "split_from cur (c # cs) =
     (if is_space c then (if cur = [] then split_from [] cs else cur # split_from [] cs)
      else split_from (cur @ [c]) cs)"

definition split :: "string \<Rightarrow> string list" where
  \<comment> \<open>\<open>s.split()\<close>: the maximal runs of characters that are not whitespace\<close>
  "split s = split_from [] s"

definition is_digit :: "char \<Rightarrow> bool" where
  "is_digit c \<longleftrightarrow> c \<in> set ''0123456789''"

definition digit_val :: "char \<Rightarrow> nat" where
  "digit_val c = of_char c - 48"

definition digits_val :: "string \<Rightarrow> nat" where
  "digits_val ds = foldl (\<lambda>n c. 10 * n + digit_val c) 0 ds"

fun valid_digits :: "string \<Rightarrow> bool" where
  \<comment> \<open>digits, with single underscores allowed between two digits\<close>
  "valid_digits [] = False"
| "valid_digits [c] = is_digit c"
| "valid_digits (c # d # ds) =
     (is_digit c \<and> (if d = CHR ''_'' then valid_digits ds else valid_digits (d # ds)))"

definition is_int_space :: "char \<Rightarrow> bool" where
  \<comment> \<open>the whitespace \<open>int()\<close> accepts around the digits\<close>
  "is_int_space c \<longleftrightarrow> c \<in> set [CHR 0x09, CHR 0x0A, CHR 0x0B, CHR 0x0C, CHR 0x0D, CHR 0x20,
                                  CHR 0x85, CHR 0xA0]"

definition int_of_str :: "string \<Rightarrow> exn + int" where
  \<comment> \<open>\<open>int(s)\<close> for a string: whitespace around, a sign, decimal digits. The
      interpreter's limit on the number of digits is left out.\<close>
  "int_of_str s =
     (let t = rev (dropWhile is_int_space (rev (dropWhile is_int_space s)));
          neg = (t \<noteq> [] \<and> hd t = CHR ''-'');
          body = (if t \<noteq> [] \<and> (hd t = CHR ''-'' \<or> hd t = CHR ''+'') then tl t else t)
      in if valid_digits body
         then Inr ((if neg then -1 else 1) * int (digits_val (filter (\<lambda>c. c \<noteq> CHR ''_'') body)))
         else Inl ValueError)"

definition trunc :: "rat \<Rightarrow> int" where
  \<comment> \<open>rounding toward zero\<close>
  "trunc q = (if q < 0 then \<lceil>q\<rceil> else \<lfloor>q\<rfloor>)"

fun py_int :: "json \<Rightarrow> exn + int" where
  \<comment> \<open>the built-in \<open>int(x)\<close>\<close>
  "py_int (JInt n) = Inr n"
| "py_int (JBool b) = Inr (if b then 1 else 0)"
| "py_int (JFloat (Finite q)) = Inr (trunc q)"
| "py_int (JFloat (Inf _)) = Inl OverflowError"
| "py_int (JFloat NaN) = Inl ValueError"
| "py_int (JStr s) = int_of_str s"
| "py_int _ = Inl TypeError"

function str_nat :: "nat \<Rightarrow> string" where
  \<comment> \<open>\<open>str(n)\<close> for a natural number\<close>
  "str_nat n =
     (if n < 10 then [''0123456789'' ! n]
      else str_nat (n div 10) @ [''0123456789'' ! (n mod 10)])"
  by pat_completeness auto
termination
  by (relation "measure id") auto

section \<open>Python floats\<close>

text \<open>
  A finite float is the rational number it stands for. \<open>round64\<close> rounds a rational to the
  nearest binary64 value, ties to the even significand, and gives an infinity beyond the
  largest one. Negative zero is not told apart from zero.
\<close>

definition pow2 :: "int \<Rightarrow> rat" where
  "pow2 e = (if e < 0 then 1 / 2 ^ nat (- e) else 2 ^ nat e)"

definition pow10 :: "int \<Rightarrow> rat" where
  "pow10 e = (if e < 0 then 1 / 10 ^ nat (- e) else 10 ^ nat e)"

definition round_half_even :: "rat \<Rightarrow> int" where
  "round_half_even x =
     (let f = \<lfloor>x\<rfloor>; d = x - of_int f
      in if d < 1 / 2 then f else if d > 1 / 2 then f + 1 else if even f then f else f + 1)"

definition floor_log2 :: "rat \<Rightarrow> int" where
  \<comment> \<open>for \<open>a > 0\<close>, the \<open>e\<close> with \<open>2 ^ e \<le> a < 2 ^ (e + 1)\<close>\<close>
  "floor_log2 a =
     (case quotient_of a of (n, d) \<Rightarrow>
        (let k = bitlen n - bitlen d in if pow2 k \<le> a then k else k - 1))"

definition round64_rat :: "rat \<Rightarrow> rat" where
  "round64_rat q =
     (if q = 0 then 0
      else
        (let a = \<bar>q\<bar>;
             p = max (floor_log2 a - 52) (- 1074);
             v = of_int (round_half_even (a / pow2 p)) * pow2 p
         in if q < 0 then - v else v))"

definition round64 :: "rat \<Rightarrow> pyfloat" where
  \<comment> \<open>a rounded value of \<open>2 ^ 1024\<close> or more is beyond the finite floats\<close>
  "round64 q =
     (let v = round64_rat q
      in if v \<noteq> 0 \<and> floor_log2 \<bar>v\<bar> \<ge> 1024 then Inf (q < 0) else Finite v)"

fun fadd :: "pyfloat \<Rightarrow> pyfloat \<Rightarrow> pyfloat" where
  "fadd NaN y = NaN"
| "fadd x NaN = NaN"
| "fadd (Inf a) (Inf b) = (if a = b then Inf a else NaN)"
| "fadd (Inf a) (Finite y) = Inf a"
| "fadd (Finite x) (Inf b) = Inf b"
| "fadd (Finite x) (Finite y) = round64 (x + y)"

definition float_of_int :: "int \<Rightarrow> exn + pyfloat" where
  \<comment> \<open>the conversion of an \<open>int\<close> operand; too large an \<open>int\<close> raises\<close>
  "float_of_int n =
     (case round64 (of_int n) of Finite v \<Rightarrow> Inr (Finite v) | _ \<Rightarrow> Inl OverflowError)"

fun take_digitpart :: "string \<Rightarrow> string \<times> string" where
  \<comment> \<open>the longest prefix of digits with single underscores between them; the digits and
      the rest\<close>
  "take_digitpart [] = ([], [])"
| "take_digitpart [c] = (if is_digit c then ([c], []) else ([], [c]))"
| "take_digitpart (c # d # ds) =
     (if \<not> is_digit c then ([], c # d # ds)
      else if d = CHR ''_'' \<and> ds \<noteq> [] \<and> is_digit (hd ds)
        then (case take_digitpart ds of (a, r) \<Rightarrow> (c # a, r))
        else (case take_digitpart (d # ds) of (a, r) \<Rightarrow> (c # a, r)))"

definition lower :: "char \<Rightarrow> char" where
  "lower c = (if c \<in> set ''ABCDEFGHIJKLMNOPQRSTUVWXYZ'' then char_of (of_char c + (32::nat)) else c)"

definition float_of_str :: "string \<Rightarrow> exn + pyfloat" where
  \<comment> \<open>\<open>float(s)\<close> for a string\<close>
  "float_of_str s =
     (let t = rev (dropWhile is_int_space (rev (dropWhile is_int_space s)));
          neg = (t \<noteq> [] \<and> hd t = CHR ''-'');
          body = (if t \<noteq> [] \<and> (hd t = CHR ''-'' \<or> hd t = CHR ''+'') then tl t else t);
          word = map lower body
      in if word = ''inf'' \<or> word = ''infinity'' then Inr (Inf neg)
         else if word = ''nan'' then Inr NaN
         else
           (case take_digitpart body of (ip, r1) \<Rightarrow>
              (case (if r1 \<noteq> [] \<and> hd r1 = CHR ''.'' then take_digitpart (tl r1) else ([], r1)) of
                 (fp, r2) \<Rightarrow>
                   if ip = [] \<and> fp = [] then Inl ValueError
                   else
                     (case (if r2 = [] then Some 0
                            else if hd r2 = CHR ''e'' \<or> hd r2 = CHR ''E'' then
                              (let r3 = tl r2;
                                   eneg = (r3 \<noteq> [] \<and> hd r3 = CHR ''-'');
                                   r4 = (if r3 \<noteq> [] \<and> (hd r3 = CHR ''-'' \<or> hd r3 = CHR ''+'')
                                         then tl r3 else r3)
                               in case take_digitpart r4 of (ed, r5) \<Rightarrow>
                                    if ed \<noteq> [] \<and> r5 = []
                                    then Some ((if eneg then -1 else 1) * int (digits_val ed))
                                    else None)
                            else None) of
                        None \<Rightarrow> Inl ValueError
                      | Some ex \<Rightarrow>
                          Inr (round64 ((if neg then -1 else 1)
                                        * of_nat (digits_val (ip @ fp))
                                        * pow10 (ex - int (length fp))))))))"

text \<open>
  Floor division and remainder of a finite float by a positive finite float, as the
  interpreter computes them from the exact \<open>fmod\<close>.
\<close>

definition float_fmod :: "rat \<Rightarrow> rat \<Rightarrow> rat" where
  "float_fmod v w = v - w * of_int (trunc (v / w))"

definition float_rem :: "rat \<Rightarrow> rat \<Rightarrow> rat" where
  \<comment> \<open>\<open>v % w\<close> for \<open>w > 0\<close>\<close>
  "float_rem v w =
     (let m = float_fmod v w in if m < 0 then round64_rat (m + w) else m)"

definition float_floordiv :: "rat \<Rightarrow> rat \<Rightarrow> rat" where
  \<comment> \<open>\<open>v // w\<close> for \<open>w > 0\<close>\<close>
  "float_floordiv v w =
     (let m = float_fmod v w;
          d0 = round64_rat (round64_rat (v - m) / w);
          d = (if m < 0 then round64_rat (d0 - 1) else d0)
      in if d = 0 then 0
         else (let f = of_int \<lfloor>d\<rfloor> in if round64_rat (d - f) > 1 / 2 then f + 1 else f))"

subsection \<open>Formatting\<close>

definition str_int :: "int \<Rightarrow> string" where
  "str_int n = (if n < 0 then CHR ''-'' # str_nat (nat (- n)) else str_nat (nat n))"

definition zero_pad :: "nat \<Rightarrow> bool \<Rightarrow> string \<Rightarrow> string" where
  \<comment> \<open>the flag \<open>0\<close> of a format: zeros between the sign and the digits up to the width\<close>
  "zero_pad width neg digits =
     (let sign = (if neg then ''-'' else '''')
      in sign @ replicate (width - length sign - length digits) CHR ''0'' @ digits)"

definition fmt_02d :: "int \<Rightarrow> string" where
  \<comment> \<open>\<open>f"{n:02d}"\<close>\<close>
  "fmt_02d n = zero_pad 2 (n < 0) (str_nat (nat \<bar>n\<bar>))"

definition fmt_05_2f :: "pyfloat \<Rightarrow> string" where
  \<comment> \<open>\<open>f"{x:05.2f}"\<close>\<close>
  "fmt_05_2f x =
     (case x of
        Finite q \<Rightarrow>
          (let n = nat (round_half_even (\<bar>q\<bar> * 100))
           in zero_pad 5 (q < 0)
                (str_nat (n div 100) @ ''.'' @ [''0123456789'' ! (n mod 100 div 10),
                                                ''0123456789'' ! (n mod 10)]))
      | Inf neg \<Rightarrow> zero_pad 5 neg ''inf''
      | NaN \<Rightarrow> zero_pad 5 False ''nan'')"

section \<open>A reader for JSON text\<close>

text \<open>
  \<open>json.loads\<close> belongs to Python's library, so the parser below takes the decoder as a
  parameter \<open>loads :: string \<Rightarrow> json option\<close> (\<open>None\<close> for \<open>JSONDecodeError\<close>). To run
  the parser on concrete text, \<open>json_loads\<close> follows the library's scanner: whitespace is
  blank, tab, newline and carriage return; a string has no raw control character and the
  escapes of JSON; a number is an \<open>int\<close> unless it has a fraction or an exponent; a
  repeated key keeps its first place and its last value; \<open>NaN\<close>, \<open>Infinity\<close> and
  \<open>-Infinity\<close> are read. One limit: a \<open>\\u\<close> escape of \<open>0x100\<close> or more has no \<open>char\<close> and is
  rejected.
\<close>

definition DQUOTE :: char where
  "DQUOTE = CHR 0x22"

definition BSLASH :: char where
  "BSLASH = CHR 0x5C"

definition json_ws :: "char \<Rightarrow> bool" where
  "json_ws c \<longleftrightarrow> c \<in> set [CHR 0x20, CHR 0x09, CHR 0x0A, CHR 0x0D]"

definition skip_ws :: "string \<Rightarrow> string" where
  "skip_ws s = dropWhile json_ws s"

definition hex_val :: "char \<Rightarrow> nat option" where
  "hex_val c =
     (if is_digit c then Some (of_char c - 48)
      else if c \<in> set ''abcdef'' then Some (of_char c - 87)
      else if c \<in> set ''ABCDEF'' then Some (of_char c - 55)
      else None)"

definition hex4 :: "string \<Rightarrow> nat option" where
  "hex4 s =
     (case map hex_val (take 4 s) of
        [Some a, Some b, Some c, Some d] \<Rightarrow> Some (((a * 16 + b) * 16 + c) * 16 + d)
      | _ \<Rightarrow> None)"

definition backslash :: "char \<Rightarrow> char option" where
  "backslash e =
     (if e = DQUOTE then Some DQUOTE
      else if e = BSLASH then Some BSLASH
      else if e = CHR ''/'' then Some CHR ''/''
      else if e = CHR ''b'' then Some (CHR 0x08)
      else if e = CHR ''f'' then Some (CHR 0x0C)
      else if e = CHR ''n'' then Some (CHR 0x0A)
      else if e = CHR ''r'' then Some (CHR 0x0D)
      else if e = CHR ''t'' then Some (CHR 0x09)
      else None)"

text \<open>\<open>scanstring acc s\<close> reads a string whose opening quote has been consumed.\<close>

function scanstring :: "string \<Rightarrow> string \<Rightarrow> (string \<times> string) option" where
  "scanstring acc [] = None"
| "scanstring acc (c # cs) =
     (if c = DQUOTE then Some (acc, cs)
      else if c = BSLASH then
        (case cs of
           [] \<Rightarrow> None
         | e # r \<Rightarrow>
             if e = CHR ''u'' then
               (case hex4 r of
                  None \<Rightarrow> None
                | Some n \<Rightarrow> if n < 256 then scanstring (acc @ [char_of n]) (drop 4 r) else None)
             else
               (case backslash e of
                  None \<Rightarrow> None
                | Some ch \<Rightarrow> scanstring (acc @ [ch]) r))
      else if (of_char c :: nat) < 32 then None
      else scanstring (acc @ [c]) cs)"
  by pat_completeness auto
termination
  by (relation "measure (\<lambda>(acc, s). length s)") auto

text \<open>
  A number at the head of the text, by the scanner's pattern
  \<open>(-?(?:0|[1-9][0-9]*))(\\.[0-9]+)?([eE][-+]?[0-9]+)?\<close>.
\<close>

definition scan_int_part :: "string \<Rightarrow> (string \<times> string) option" where
  \<comment> \<open>\<open>0|[1-9][0-9]*\<close>\<close>
  "scan_int_part s =
     (case s of
        [] \<Rightarrow> None
      | c # cs \<Rightarrow>
          if c = CHR ''0'' then Some ([c], cs)
          else if is_digit c then Some (c # takeWhile is_digit cs, dropWhile is_digit cs)
          else None)"

definition scan_frac :: "string \<Rightarrow> (string \<times> string) option" where
  \<comment> \<open>\<open>\\.[0-9]+\<close>, the digits returned\<close>
  "scan_frac s =
     (case s of
        c # d # ds \<Rightarrow>
          if c = CHR ''.'' \<and> is_digit d
          then Some (takeWhile is_digit (d # ds), dropWhile is_digit (d # ds))
          else None
      | _ \<Rightarrow> None)"

definition scan_exp :: "string \<Rightarrow> (int \<times> string) option" where
  \<comment> \<open>\<open>[eE][-+]?[0-9]+\<close>, the exponent returned\<close>
  "scan_exp s =
     (case s of
        [] \<Rightarrow> None
      | c # cs \<Rightarrow>
          if c = CHR ''e'' \<or> c = CHR ''E'' then
            (let neg = (cs \<noteq> [] \<and> hd cs = CHR ''-'');
                 ds = (if cs \<noteq> [] \<and> (hd cs = CHR ''-'' \<or> hd cs = CHR ''+'') then tl cs else cs)
             in if ds \<noteq> [] \<and> is_digit (hd ds)
                then Some ((if neg then -1 else 1) * int (digits_val (takeWhile is_digit ds)),
                           dropWhile is_digit ds)
                else None)
          else None)"

definition match_number :: "string \<Rightarrow> (json \<times> string) option" where
  "match_number s =
     (let neg = (s \<noteq> [] \<and> hd s = CHR ''-'');
          s1 = (if neg then tl s else s)
      in case scan_int_part s1 of
           None \<Rightarrow> None
         | Some (ip, r1) \<Rightarrow>
             (let (fp, r2) = (case scan_frac r1 of None \<Rightarrow> ([], r1) | Some (f, r) \<Rightarrow> (f, r));
                  (ex, r3) = (case scan_exp r2 of None \<Rightarrow> (None, r2) | Some (e, r) \<Rightarrow> (Some e, r));
                  sgn = (if neg then -1 else 1 :: int)
              in if fp = [] \<and> ex = None
                 then Some (JInt (sgn * int (digits_val ip)), r3)
                 else Some (JFloat (round64 (of_int (sgn * int (digits_val (ip @ fp)))
                                            * pow10 ((case ex of None \<Rightarrow> 0 | Some e \<Rightarrow> e)
                                                     - int (length fp)))), r3)))"

text \<open>
  The recursive scanner. Every call consumes a character before it calls itself, so fuel
  of the length of the text plus one is never used up.
\<close>

fun scan_once :: "nat \<Rightarrow> string \<Rightarrow> (json \<times> string) option"
  and scan_members :: "nat \<Rightarrow> (string \<times> json) list \<Rightarrow> string \<Rightarrow> (json \<times> string) option"
  and scan_elements :: "nat \<Rightarrow> json list \<Rightarrow> string \<Rightarrow> (json \<times> string) option" where
  "scan_once 0 s = None"
| "scan_once (Suc n) [] = None"
| "scan_once (Suc n) (c # cs) =
     (if c = DQUOTE then
        (case scanstring [] cs of None \<Rightarrow> None | Some (str, r) \<Rightarrow> Some (JStr str, r))
      else if c = CHR ''{'' then
        (case skip_ws cs of
           [] \<Rightarrow> None
         | d # r \<Rightarrow> if d = CHR ''}'' then Some (JObj [], r)
                    else if d = DQUOTE then scan_members n [] r
                    else None)
      else if c = CHR ''['' then
        (case skip_ws cs of
           [] \<Rightarrow> None
         | d # r \<Rightarrow> if d = CHR '']'' then Some (JArr [], r)
                    else scan_elements n [] (d # r))
      else if c = CHR ''n'' \<and> take 4 (c # cs) = ''null'' then Some (JNull, drop 3 cs)
      else if c = CHR ''t'' \<and> take 4 (c # cs) = ''true'' then Some (JBool True, drop 3 cs)
      else if c = CHR ''f'' \<and> take 5 (c # cs) = ''false'' then Some (JBool False, drop 4 cs)
      else
        (case match_number (c # cs) of
           Some res \<Rightarrow> Some res
         | None \<Rightarrow>
             if c = CHR ''N'' \<and> take 3 (c # cs) = ''NaN'' then Some (JFloat NaN, drop 2 cs)
             else if c = CHR ''I'' \<and> take 8 (c # cs) = ''Infinity''
               then Some (JFloat (Inf False), drop 7 cs)
             else if c = CHR ''-'' \<and> take 9 (c # cs) = ''-Infinity''
               then Some (JFloat (Inf True), drop 8 cs)
             else None))"
| "scan_members 0 acc s = None"
| "scan_members (Suc n) acc s =
     (case scanstring [] s of
        None \<Rightarrow> None
      | Some (key, r1) \<Rightarrow>
          (case skip_ws r1 of
             [] \<Rightarrow> None
           | c # r2 \<Rightarrow>
               if c \<noteq> CHR '':'' then None
               else
                 (case scan_once n (skip_ws r2) of
                    None \<Rightarrow> None
                  | Some (v, r3) \<Rightarrow>
                      (case skip_ws r3 of
                         [] \<Rightarrow> None
                       | d # r4 \<Rightarrow>
                           if d = CHR ''}'' then Some (JObj (AList.update key v acc), r4)
                           else if d = CHR '','' then
                             (case skip_ws r4 of
                                [] \<Rightarrow> None
                              | q # r5 \<Rightarrow> if q = DQUOTE
                                          then scan_members n (AList.update key v acc) r5
                                          else None)
                           else None))))"
| "scan_elements 0 acc s = None"
| "scan_elements (Suc n) acc s =
     (case scan_once n s of
        None \<Rightarrow> None
      | Some (v, r1) \<Rightarrow>
          (case skip_ws r1 of
             [] \<Rightarrow> None
           | d # r2 \<Rightarrow>
               if d = CHR '']'' then Some (JArr (acc @ [v]), r2)
               else if d = CHR '','' then scan_elements n (acc @ [v]) (skip_ws r2)
               else None))"

definition json_loads :: "string \<Rightarrow> json option" where
  "json_loads s =
     (case scan_once (Suc (length s)) (skip_ws s) of
        None \<Rightarrow> None
      | Some (v, r) \<Rightarrow> if skip_ws r = [] then Some v else None)"

section \<open>Parsing the model's response (extraction.py)\<close>

definition fence :: string where
  "fence = ''```''"

definition strip_code_fences :: "string \<Rightarrow> string" where
  "strip_code_fences text =
     (let t = strip text in
      if prefix fence t then
        (let t1 = (if LF \<in> set t then tl (dropWhile (\<lambda>c. c \<noteq> LF) t) else t);
             t2 = (if suffix fence t1 then take (length t1 - 3) t1 else t1)
         in strip t2)
      else strip t)"

definition try_load_json :: "(string \<Rightarrow> json option) \<Rightarrow> string \<Rightarrow> json" where
  \<comment> \<open>\<open>None\<close> of Python is \<open>JNull\<close>: a decoding error and the document \<open>null\<close> give the same\<close>
  "try_load_json loads candidate = (case loads candidate of None \<Rightarrow> JNull | Some d \<Rightarrow> d)"

definition re_search_block :: "char \<Rightarrow> char \<Rightarrow> string \<Rightarrow> string option" where
  \<comment> \<open>\<open>re.search\<close> for \<open>\\{[\\s\\S]*\\}\<close> and \<open>\\[[\\s\\S]*\\]\<close>: the leftmost opening
      character and, the star being greedy, the last closing character after it\<close>
  "re_search_block l r s =
     (case dropWhile (\<lambda>c. c \<noteq> l) s of
        [] \<Rightarrow> None
      | _ # body \<Rightarrow>
          if r \<in> set body then Some (l # rev (dropWhile (\<lambda>c. c \<noteq> r) (rev body)))
          else None)"

definition find_candidate :: "string \<Rightarrow> string option" where
  "find_candidate clean_response =
     (case re_search_block CHR ''{'' CHR ''}'' clean_response of
        Some obj_match \<Rightarrow> Some obj_match
      | None \<Rightarrow> re_search_block CHR ''['' CHR '']'' clean_response)"

definition load_response :: "(string \<Rightarrow> json option) \<Rightarrow> string \<Rightarrow> json" where
  \<comment> \<open>steps 1 to 3: the value of \<open>data\<close> before the test \<open>data is None\<close>\<close>
  "load_response loads response_text =
     (let clean_response = strip_code_fences response_text;
          data = try_load_json loads clean_response
      in if data = JNull then
           (case find_candidate clean_response of
              None \<Rightarrow> JNull
            | Some candidate \<Rightarrow> try_load_json loads candidate)
         else data)"

definition select_moments :: "json \<Rightarrow> json option" where
  \<comment> \<open>step 4: the value of \<open>moments\<close>, or \<open>None\<close> where the code returns \<open>[]\<close> for an
      unexpected root\<close>
  "select_moments data =
     (case data of
        JArr xs \<Rightarrow> Some (JArr xs)
      | JObj d \<Rightarrow>
          (let moments = dict_get_default d ''moments'' (JArr []) in
           if \<not> truthy moments \<and> (has_key ''quote'' d \<or> has_key ''timestamps'' d)
           then Some (JArr [JObj d])
           else Some moments)
      | _ \<Rightarrow> None)"

definition persona_keys :: "string list" where
  "persona_keys = [''historian'', ''thomist'', ''ex_protestant'', ''meme_catholic'',
                   ''old_world_catholic'', ''catholic'']"

definition llm_duration_of :: "json \<Rightarrow> int" where
  \<comment> \<open>\<open>int(llm_duration) if llm_duration else 0\<close>, with 0 for any exception\<close>
  "llm_duration_of x =
     (if truthy x then (case py_int x of Inl _ \<Rightarrow> 0 | Inr n \<Rightarrow> n) else 0)"

definition word_based_duration :: "nat \<Rightarrow> int" where
  \<comment> \<open>\<open>int(word_count / 2.6) if word_count > 0 else 0\<close>. The quotient of the two floats,
      truncated, is the integer quotient of \<open>5 * word_count\<close> by 13.\<close>
  "word_based_duration word_count =
     (if word_count > 0 then int ((5 * word_count) div 13) else 0)"

definition ensure_timestamps :: "(string \<times> json) list \<Rightarrow> (string \<times> json) list" where
  \<comment> \<open>\<open>if not moment.get("timestamps"): moment.setdefault("timestamps", "")\<close>\<close>
  "ensure_timestamps m =
     (if \<not> truthy (dict_get m ''timestamps'') then setdefault ''timestamps'' (JStr []) m else m)"

definition fill_defaults :: "(string \<times> json) list \<Rightarrow> (string \<times> json) list" where
  \<comment> \<open>the five calls of \<open>moment.setdefault\<close>, in the order of the source\<close>
  "fill_defaults m =
     setdefault ''persona_captions'' (JObj [])
       (setdefault ''flags'' (JArr [])
         (setdefault ''energy_tag'' (JStr [])
           (setdefault ''why_it_hits'' (JStr [])
             (setdefault ''viral_trigger'' (JStr []) m))))"

definition fill_persona_captions :: "(string \<times> json) list \<Rightarrow> (string \<times> json) list" where
  \<comment> \<open>the loop over the six persona keys\<close>
  "fill_persona_captions pc = foldl (\<lambda>d key. setdefault key (JStr []) d) pc persona_keys"

definition process_moment :: "string \<Rightarrow> json \<Rightarrow> exn + json option" where
  \<comment> \<open>the body of the loop of step 5 for one entry; \<open>ident\<close> is the identifier drawn for
      it, \<open>Inr None\<close> is a skipped entry\<close>
  "process_moment ident moment =
     (case moment of
        JObj m \<Rightarrow>
          (let m1 = AList.update ''id'' (JStr ident) m in
           if \<not> truthy (dict_get m1 ''quote'') then Inr None
           else
             (let m2 = ensure_timestamps m1;
                  quote = dict_get_default m2 ''quote'' (JStr [])
              in case (if truthy quote
                       then (case quote of JStr q \<Rightarrow> Inr (length (split q))
                                         | _ \<Rightarrow> Inl AttributeError)
                       else Inr 0) of
                   Inl e \<Rightarrow> Inl e
                 | Inr word_count \<Rightarrow>
                     (let llm_duration =
                            llm_duration_of (dict_get_default m2 ''clip_duration_seconds'' (JInt 0));
                          m3 = AList.update ''clip_duration_seconds''
                                 (JInt (max llm_duration (word_based_duration word_count))) m2;
                          m4 = fill_defaults m3
                      in case dict_get m4 ''persona_captions'' of
                           JObj pc \<Rightarrow>
                             Inr (Some (JObj (AList.update ''persona_captions''
                                                (JObj (fill_persona_captions pc)) m4)))
                         | _ \<Rightarrow> Inl AttributeError)))
      | _ \<Rightarrow> Inr None)"

text \<open>
  \<open>uuid.uuid4\<close> is modelled by what it returns: \<open>ids i\<close> is the eight-character identifier
  drawn for entry \<open>i\<close> of the list.
\<close>

fun process_moments :: "(nat \<Rightarrow> string) \<Rightarrow> nat \<Rightarrow> json list \<Rightarrow> exn + json list" where
  "process_moments ids i [] = Inr []"
| "process_moments ids i (moment # rest) =
     (case process_moment (ids i) moment of
        Inl e \<Rightarrow> Inl e
      | Inr r \<Rightarrow>
          (case process_moments ids (Suc i) rest of
             Inl e \<Rightarrow> Inl e
           | Inr out \<Rightarrow> Inr (case r of None \<Rightarrow> out | Some m \<Rightarrow> m # out)))"

definition parse_moment_response ::
  "(string \<Rightarrow> json option) \<Rightarrow> (nat \<Rightarrow> string) \<Rightarrow> string \<Rightarrow> exn + json list" where
  "parse_moment_response loads ids response_text =
     (let data = load_response loads response_text in
      if data = JNull then Inr []
      else
        (case select_moments data of
           None \<Rightarrow> Inr []
         | Some moments \<Rightarrow>
             (case py_iter moments of
                Inl e \<Rightarrow> Inl e
              | Inr entries \<Rightarrow> process_moments ids 0 entries)))"

text \<open>Identifiers for running the parser on concrete text.\<close>

definition sample_ids :: "nat \<Rightarrow> string" where
  "sample_ids i = ''0000000'' @ [''0123456789abcdef'' ! (i mod 16)]"

section \<open>Properties of a normalized moment\<close>

text \<open>The dictionary of an entry before the persona captions are filled in.\<close>

definition enriched :: "string \<Rightarrow> (string \<times> json) list \<Rightarrow> string \<Rightarrow> (string \<times> json) list" where
  "enriched ident m q =
     fill_defaults (AList.update ''clip_duration_seconds''
       (JInt (max (llm_duration_of (dict_get_default m ''clip_duration_seconds'' (JInt 0)))
                  (word_based_duration (length (split q)))))
       (ensure_timestamps (AList.update ''id'' (JStr ident) m)))"

text \<open>A candidate survives when it is a dict with a true \<open>quote\<close>.\<close>

definition has_quote :: "json \<Rightarrow> bool" where
  "has_quote c = (case c of JObj d \<Rightarrow> truthy (dict_get d ''quote'') | _ \<Rightarrow> False)"

text \<open>
  The invariants of an emitted moment: a \<open>quote\<close> that is a string and not empty, a
  \<open>clip_duration_seconds\<close> that is an \<open>int\<close> and not negative, and \<open>persona_captions\<close>
  a dict with the six keys.
\<close>

definition well_formed_moment :: "json \<Rightarrow> bool" where
  "well_formed_moment m =
     (case m of
        JObj d \<Rightarrow>
          (case map_of d ''quote'' of Some (JStr q) \<Rightarrow> q \<noteq> [] | _ \<Rightarrow> False) \<and>
          (case map_of d ''clip_duration_seconds'' of Some (JInt n) \<Rightarrow> 0 \<le> n | _ \<Rightarrow> False) \<and>
          (case map_of d ''persona_captions'' of
             Some (JObj pc) \<Rightarrow> list_all (\<lambda>k. has_key k pc) persona_keys
           | _ \<Rightarrow> False)
      | _ \<Rightarrow> False)"

text \<open>
  \<open>extends c m\<close>: the moment \<open>m\<close> is the candidate \<open>c\<close> with fields added; every field
  of \<open>c\<close> other than the three the normalizer writes has its value in \<open>m\<close>.
\<close>

definition extends :: "json \<Rightarrow> json \<Rightarrow> bool" where
  "extends c m =
     (case c of
        JObj d \<Rightarrow>
          (case m of
             JObj d' \<Rightarrow>
               list_all (\<lambda>k. k \<in> set [''id'', ''clip_duration_seconds'', ''persona_captions'']
                               \<or> map_of d' k = map_of d k) (map fst d)
           | _ \<Rightarrow> False)
      | _ \<Rightarrow> False)"

section \<open>The cache (cache\_utils.py)\<close>

text \<open>
  The file system is a state passed along. A cache file holds either the text of a JSON
  document, kept as the document it decodes to, or text that \<open>json.load\<close> rejects, as a
  write that stopped part-way leaves it. The flags say where a call of the operating
  system raises \<open>OSError\<close>: making the directory, reading a file, opening a file for
  writing (the file is then untouched) and writing to the opened file (the file is then
  truncated).
\<close>

datatype 'c file_content = Doc "'c gjson" | Unreadable

record 'c fs =
  dir_exists :: bool
  files :: "string \<rightharpoonup> 'c file_content"
  mkdir_fails :: bool
  read_fails :: "string \<Rightarrow> bool"
  write_fails :: "string \<Rightarrow> bool"
  dump_fails :: "string \<Rightarrow> bool"

text \<open>
  The characters of the string values: \<open>emb\<close> takes an 8-bit character into them and
  \<open>code_point\<close> gives the code point of a character. The pipeline runs with \<open>latin1\<close>;
  \<open>unicode\<close> has every code point, the surrogates among them.
\<close>

record 'c charset =
  emb :: "char \<Rightarrow> 'c"
  code_point :: "'c \<Rightarrow> nat"

definition latin1 :: "char charset" where
  "latin1 = \<lparr>emb = (\<lambda>c. c), code_point = of_char\<rparr>"


definition utf8_encodable :: "nat \<Rightarrow> bool" where
  \<comment> \<open>the code points the UTF-8 codec of the file accepts: all but the surrogates\<close>
  "utf8_encodable cp \<longleftrightarrow> cp < 0xD800 \<or> (0xDFFF < cp \<and> cp < 0x110000)"

fun dumpable :: "('c \<Rightarrow> nat) \<Rightarrow> 'c gjson \<Rightarrow> bool" where
  \<comment> \<open>\<open>json.dump(value, f, ensure_ascii=False)\<close> to a file opened with
      \<open>encoding='utf-8'\<close> completes: no string value has a character that cannot be
      encoded (the keys are 8-bit and can)\<close>
  "dumpable cp (JStr s) = list_all (\<lambda>c. utf8_encodable (cp c)) s"
| "dumpable cp (JArr xs) = list_all (dumpable cp) xs"
| "dumpable cp (JObj kvs) = list_all (dumpable cp) (map snd kvs)"
| "dumpable cp v = True"

definition get_cache_dir :: "'c fs \<Rightarrow> exn + string \<times> 'c fs" where
  "get_cache_dir s =
     (if \<not> dir_exists s
      then (if mkdir_fails s then Inl OSError else Inr (CACHE_DIR, s\<lparr>dir_exists := True\<rparr>))
      else Inr (CACHE_DIR, s))"

text \<open>
  The metadata is a dict of strings: the two fields read, \<open>video_id\<close> and \<open>language\<close>, are
  strings in what the transcript fetcher returns. \<open>md5\<close> stands for
  \<open>hashlib.md5(text.encode('utf-8')).hexdigest()\<close>.
\<close>

definition build_cache_key ::
  "(string \<Rightarrow> string) \<Rightarrow> string \<Rightarrow> (string \<times> string) list option \<Rightarrow> string" where
  "build_cache_key md5 transcript_text video_metadata =
     (let by_hash = ''transcript_'' @ md5 transcript_text in
      case video_metadata of
        None \<Rightarrow> by_hash
      | Some md \<Rightarrow>
          if md = [] then by_hash
          else
            (let video_id = (case map_of md ''video_id'' of None \<Rightarrow> [] | Some v \<Rightarrow> v);
                 language = (case map_of md ''language'' of None \<Rightarrow> ''en'' | Some v \<Rightarrow> v)
             in if video_id \<noteq> [] then ''video_'' @ video_id @ ''_'' @ language else by_hash))"

definition get_cache_path :: "'c fs \<Rightarrow> string \<Rightarrow> exn + string \<times> 'c fs" where
  "get_cache_path s cache_key =
     (case get_cache_dir s of
        Inl e \<Rightarrow> Inl e
      | Inr (cache_dir, s') \<Rightarrow> Inr (cache_dir @ ''/'' @ cache_key @ ''.json'', s'))"

definition get_cached_moments ::
  "(string \<Rightarrow> string) \<Rightarrow> 'c fs \<Rightarrow> string \<Rightarrow> (string \<times> string) list option
   \<Rightarrow> 'c gjson list option \<times> 'c fs" where
  "get_cached_moments md5 s transcript_text video_metadata =
     (if \<not> CACHE_ENABLED then (None, s)
      else
        (case get_cache_path s (build_cache_key md5 transcript_text video_metadata) of
           Inl e \<Rightarrow> (None, s)
         | Inr (cache_path, s') \<Rightarrow>
             (case files s' cache_path of
                None \<Rightarrow> (None, s')
              | Some content \<Rightarrow>
                  if read_fails s' cache_path then (None, s')
                  else
                    (case content of
                       Unreadable \<Rightarrow> (None, s')
                     | Doc cached_data \<Rightarrow>
                         (case cached_data of
                            JObj d \<Rightarrow>
                              (case map_of d ''moments'' of
                                 None \<Rightarrow> (None, s')
                               | Some (JArr moments) \<Rightarrow> (Some moments, s')
                               | Some _ \<Rightarrow> (None, s'))
                          | _ \<Rightarrow> (None, s'))))))"

definition cache_document :: "'c charset \<Rightarrow> string \<Rightarrow> 'c gjson list \<Rightarrow> 'c gjson" where
  \<comment> \<open>the dict \<open>cache_data\<close>\<close>
  "cache_document cs cache_key moments =
     JObj [(''cache_key'', JStr (map (emb cs) cache_key)),
           (''moments_count'', JInt (int (length moments))),
           (''moments'', JArr moments)]"

definition save_moments_to_cache ::
  "'c charset \<Rightarrow> (string \<Rightarrow> string) \<Rightarrow> 'c fs \<Rightarrow> 'c gjson list \<Rightarrow> string
   \<Rightarrow> (string \<times> string) list option \<Rightarrow> 'c fs" where
  \<comment> \<open>\<open>open(cache_path, 'w')\<close> empties the file; when \<open>json.dump\<close> then raises, what
      was written before stays in the file, and it is not a JSON document\<close>
  "save_moments_to_cache cs md5 s moments transcript_text video_metadata =
     (if \<not> CACHE_ENABLED then s
      else
        (let cache_key = build_cache_key md5 transcript_text video_metadata in
         case get_cache_path s cache_key of
           Inl e \<Rightarrow> s
         | Inr (cache_path, s') \<Rightarrow>
             (let cache_data = cache_document cs cache_key moments in
              if write_fails s' cache_path then s'
              else if dump_fails s' cache_path \<or> \<not> dumpable (code_point cs) cache_data
                then s'\<lparr>files := (files s')(cache_path \<mapsto> Unreadable)\<rparr>
                else s'\<lparr>files := (files s')(cache_path \<mapsto> Doc cache_data)\<rparr>)))"

section \<open>The orchestrator (llm\_client.py)\<close>

text \<open>
  What the orchestrator takes from outside: the JSON decoder, the language model (the
  user prompt to its answer, or an exception; the system prompt is the same in every
  call), the identifiers drawn for entry \<open>i\<close> of chunk \<open>idx\<close>, the time at which the task
  of chunk \<open>idx\<close> completes, and the hash.
\<close>

record env =
  env_loads :: "string \<Rightarrow> json option"
  env_llm :: "string \<Rightarrow> exn + string"
  env_ids :: "nat \<Rightarrow> nat \<Rightarrow> string"
  env_finish :: "nat \<Rightarrow> nat"
  env_md5 :: "string \<Rightarrow> string"

definition build_prompt_for_chunk :: "string \<Rightarrow> nat \<Rightarrow> nat \<Rightarrow> string" where
  "build_prompt_for_chunk transcript_chunk chunk_index total_chunks =
     (''Chunk '' @ str_nat chunk_index @ '' of '' @ str_nat total_chunks
        @ ''. The text below is a continuous portion of a longer talk.\<newline>'')
     @ (''Find at most '' @ str_nat MAX_MOMENTS_PER_CHUNK
        @ '' of the strongest viral clip moments ONLY from this chunk.\<newline>''
        @ ''Return them in the JSON format described in the system prompt.\<newline>''
        @ ''Transcript chunk:\<newline>'')
     @ transcript_chunk"

definition process_single_chunk :: "env \<Rightarrow> string \<times> nat \<times> nat \<Rightarrow> json list" where
  \<comment> \<open>the \<open>try\<close> block, and \<open>[]\<close> for any exception raised in it\<close>
  "process_single_chunk e chunk_data =
     (case chunk_data of (chunk, idx, total_chunks) \<Rightarrow>
        (case env_llm e (build_prompt_for_chunk chunk idx total_chunks) of
           Inl ex \<Rightarrow> []
         | Inr raw_response \<Rightarrow>
             (case parse_moment_response (env_loads e) (env_ids e idx) raw_response of
                Inl ex \<Rightarrow> []
              | Inr moments \<Rightarrow>
                  (let moments' = (if length moments > MOMENT_SAFETY_LIMIT
                                   then take MOMENT_SAFETY_LIMIT moments else moments)
                   in if moments' = [] then [] else moments'))))"

definition chunk_tasks :: "string list \<Rightarrow> (string \<times> nat \<times> nat) list" where
  \<comment> \<open>\<open>[(chunk, idx, total_chunks) for idx, chunk in enumerate(chunks, start=1)]\<close>\<close>
  "chunk_tasks chunks =
     map (\<lambda>(idx, chunk). (chunk, idx, length chunks)) (zip [1 ..< Suc (length chunks)] chunks)"

definition process_chunks_parallel :: "env \<Rightarrow> string list \<Rightarrow> json list" where
  \<comment> \<open>the results of the tasks are joined in the order in which the tasks complete\<close>
  "process_chunks_parallel e chunks =
     concat (map (process_single_chunk e)
                 (sort_key (\<lambda>(chunk, idx, n). env_finish e idx) (chunk_tasks chunks)))"

definition extract_moments ::
  "env \<Rightarrow> char fs \<Rightarrow> string \<Rightarrow> (string \<times> string) list option
   \<Rightarrow> (exn + json list) \<times> char fs" where
  "extract_moments e s transcript0 video_metadata =
     (let transcript = strip transcript0 in
      if transcript = [] then (Inl RuntimeError, s)
      else
        (case get_cached_moments (env_md5 e) s transcript video_metadata of
           (Some cached_moments, s1) \<Rightarrow> (Inr cached_moments, s1)
         | (None, s1) \<Rightarrow>
             (let chunks = chunk_transcript CHARS_PER_CHUNK transcript;
                  all_moments = process_chunks_parallel e chunks
              in if all_moments = [] then (Inr [], s1)
                 else (Inr all_moments,
                       save_moments_to_cache latin1 (env_md5 e) s1 all_moments transcript
                         video_metadata))))"

text \<open>An environment and a file system for running the orchestrator.\<close>

definition sample_env :: "(string \<Rightarrow> exn + string) \<Rightarrow> env" where
  "sample_env answer =
     \<lparr>env_loads = json_loads, env_llm = answer, env_ids = (\<lambda>idx. sample_ids),
      env_finish = (\<lambda>idx. idx), env_md5 = (\<lambda>text. ''0cc175b9c0f1b6a831c399e269772661'')\<rparr>"

definition empty_fs :: "'c fs" where
  "empty_fs = \<lparr>dir_exists = False, files = Map.empty, mkdir_fails = False,
               read_fails = (\<lambda>p. False), write_fails = (\<lambda>p. False),
               dump_fails = (\<lambda>p. False)\<rparr>"

section \<open>The ffmpeg export (export\_utils.py, to\_ffmpeg\_json)\<close>

fun split_on_from :: "char \<Rightarrow> string \<Rightarrow> string \<Rightarrow> string list" where
  "split_on_from sep cur [] = [cur]"
| "split_on_from sep cur (c # cs) =
     (if c = sep then cur # split_on_from sep [] cs else split_on_from sep (cur @ [c]) cs)"

definition split_on :: "char \<Rightarrow> string \<Rightarrow> string list" where
  \<comment> \<open>\<open>s.split(sep)\<close> for a separator of one character\<close>
  "split_on sep s = split_on_from sep [] s"

definition normalize_timestamp :: "string \<Rightarrow> string" where
  "normalize_timestamp ts =
     (case (case split_on CHR '':'' (strip ts) of
              [m, s] \<Rightarrow> Some (Inr 0, m, s)
            | [h, m, s] \<Rightarrow> Some (int_of_str h, m, s)
            | _ \<Rightarrow> None) of
        None \<Rightarrow> ts
      | Some (hr, m, s) \<Rightarrow>
          (case hr of
             Inl e \<Rightarrow> ts
           | Inr h \<Rightarrow>
               (case int_of_str m of
                  Inl e \<Rightarrow> ts
                | Inr mi \<Rightarrow>
                    (case float_of_str s of
                       Inl e \<Rightarrow> ts
                     | Inr f \<Rightarrow> fmt_02d h @ '':'' @ fmt_02d mi @ '':'' @ fmt_05_2f f))))"

definition int_plus_float :: "int \<Rightarrow> pyfloat \<Rightarrow> exn + pyfloat" where
  \<comment> \<open>\<open>n + x\<close> for an \<open>int\<close> and a \<open>float\<close>\<close>
  "int_plus_float n x = (case float_of_int n of Inl e \<Rightarrow> Inl e | Inr y \<Rightarrow> Inr (fadd y x))"

definition timestamp_to_seconds :: "string \<Rightarrow> pyfloat" where
  \<comment> \<open>any exception of the conversions gives \<open>0.0\<close>\<close>
  "timestamp_to_seconds ts =
     (case (case split_on CHR '':'' (strip ts) of
              [m, s] \<Rightarrow>
                (case int_of_str m of
                   Inl e \<Rightarrow> Inl e
                 | Inr mi \<Rightarrow>
                     (case float_of_str s of
                        Inl e \<Rightarrow> Inl e
                      | Inr f \<Rightarrow> int_plus_float (mi * 60) f))
            | [h, m, s] \<Rightarrow>
                (case int_of_str h of
                   Inl e \<Rightarrow> Inl e
                 | Inr hi \<Rightarrow>
                     (case int_of_str m of
                        Inl e \<Rightarrow> Inl e
                      | Inr mi \<Rightarrow>
                          (case float_of_str s of
                             Inl e \<Rightarrow> Inl e
                           | Inr f \<Rightarrow> int_plus_float (hi * 3600 + mi * 60) f)))
            | _ \<Rightarrow> Inr (Finite 0)) of
        Inl e \<Rightarrow> Finite 0
      | Inr secs \<Rightarrow> secs)"

definition seconds_to_timestamp :: "pyfloat \<Rightarrow> exn + string" where
  \<comment> \<open>\<open>int(secs // 3600)\<close> raises for an infinity and for not-a-number\<close>
  "seconds_to_timestamp secs =
     (case secs of
        Finite q \<Rightarrow>
          (let h = trunc (float_floordiv q 3600);
               m = trunc (float_floordiv (float_rem q 3600) 60);
               s = float_rem q 60
           in Inr (fmt_02d h @ '':'' @ fmt_02d m @ '':'' @ fmt_05_2f (Finite s)))
      | _ \<Rightarrow> Inl ValueError)"

definition is_ts_char :: "char \<Rightarrow> bool" where
  \<comment> \<open>the class \<open>[0-9:.]\<close>\<close>
  "is_ts_char c \<longleftrightarrow> is_digit c \<or> c = CHR '':'' \<or> c = CHR ''.''"

definition match_range :: "string \<Rightarrow> (string \<times> string) option" where
  \<comment> \<open>\<open>re.match\<close> for \<open>([0-9:.]+)[-\<dots>]([0-9:.]+)\<close> and its two groups; the second
      alternative of the separator, the en dash, is beyond the characters of \<open>string\<close>\<close>
  "match_range timestamps =
     (let g1 = takeWhile is_ts_char timestamps; r = dropWhile is_ts_char timestamps
      in if g1 \<noteq> [] \<and> r \<noteq> [] \<and> hd r = CHR ''-'' \<and> takeWhile is_ts_char (tl r) \<noteq> []
         then Some (g1, takeWhile is_ts_char (tl r))
         else None)"

record ffmpeg_clip =
  c_index :: nat
  c_label :: json
  c_start :: string
  c_end :: string

definition cut_sheet_of :: "(string \<times> json) list \<Rightarrow> exn + (string \<times> json) list" where
  \<comment> \<open>\<open>moment.get("editor_cut_sheet") or {}\<close>, which the code then uses as a dict\<close>
  "cut_sheet_of d =
     (let v = dict_get d ''editor_cut_sheet''
      in if truthy v then (case v of JObj cs \<Rightarrow> Inr cs | _ \<Rightarrow> Inl AttributeError)
         else Inr [])"

definition stripped_field :: "(string \<times> json) list \<Rightarrow> string \<Rightarrow> exn + string" where
  \<comment> \<open>\<open>cut_sheet.get(key, "").strip()\<close>\<close>
  "stripped_field cs key =
     (case dict_get_default cs key (JStr []) of
        JStr s \<Rightarrow> Inr (strip s)
      | _ \<Rightarrow> Inl AttributeError)"

definition timestamps_of :: "(string \<times> json) list \<Rightarrow> exn + string" where
  \<comment> \<open>\<open>(moment.get("timestamps") or "").strip()\<close>\<close>
  "timestamps_of d =
     (let v = dict_get d ''timestamps''
      in if truthy v then (case v of JStr s \<Rightarrow> Inr (strip s) | _ \<Rightarrow> Inl AttributeError)
         else Inr (strip []))"

definition no_duration :: "json \<Rightarrow> exn + bool" where
  \<comment> \<open>\<open>not clip_duration or clip_duration <= 0\<close>\<close>
  "no_duration v =
     (if \<not> truthy v then Inr True
      else (case v of
              JInt n \<Rightarrow> Inr (n \<le> 0)
            | JBool b \<Rightarrow> Inr ((if b then 1 else 0 :: int) \<le> 0)
            | JFloat (Finite q) \<Rightarrow> Inr (q \<le> 0)
            | JFloat (Inf neg) \<Rightarrow> Inr neg
            | JFloat NaN \<Rightarrow> Inr False
            | _ \<Rightarrow> Inl TypeError))"

definition BUFFER :: pyfloat where
  "BUFFER = Finite 4"

definition plus_duration :: "pyfloat \<Rightarrow> json \<Rightarrow> exn + pyfloat" where
  \<comment> \<open>\<open>start_sec + clip_duration + 4.0\<close>\<close>
  "plus_duration start_sec v =
     (case (case v of
              JInt n \<Rightarrow> float_of_int n
            | JBool b \<Rightarrow> Inr (Finite (if b then 1 else 0))
            | JFloat f \<Rightarrow> Inr f
            | _ \<Rightarrow> Inl TypeError) of
        Inl e \<Rightarrow> Inl e
      | Inr d \<Rightarrow> Inr (fadd (fadd start_sec d) BUFFER))"

definition make_clip :: "nat \<Rightarrow> json \<Rightarrow> pyfloat \<Rightarrow> pyfloat \<Rightarrow> exn + ffmpeg_clip option" where
  \<comment> \<open>the end of the loop body: the two conversions and the record\<close>
  "make_clip idx label start_sec end_sec =
     (case seconds_to_timestamp start_sec of
        Inl e \<Rightarrow> Inl e
      | Inr start \<Rightarrow>
          (case seconds_to_timestamp end_sec of
             Inl e \<Rightarrow> Inl e
           | Inr end_ts \<Rightarrow>
               Inr (Some \<lparr>c_index = idx, c_label = label, c_start = start, c_end = end_ts\<rparr>)))"

definition ffmpeg_clip_of :: "nat \<Rightarrow> json \<Rightarrow> exn + ffmpeg_clip option" where
  \<comment> \<open>the loop body for the moment at position \<open>idx\<close>; \<open>Inr None\<close> is \<open>continue\<close>\<close>
  "ffmpeg_clip_of idx moment =
     (case moment of
        JObj d \<Rightarrow>
          (case cut_sheet_of d of
             Inl e \<Rightarrow> Inl e
           | Inr cut_sheet \<Rightarrow>
               (let l = dict_get cut_sheet ''clip_label'';
                    label = (if truthy l then l else JStr (''CLIP_'' @ str_nat idx))
                in case stripped_field cut_sheet ''in_point'' of
                     Inl e \<Rightarrow> Inl e
                   | Inr in_point \<Rightarrow>
                       (case (if in_point \<noteq> [] then Inr (Some in_point)
                              else (case timestamps_of d of
                                      Inl e \<Rightarrow> Inl e
                                    | Inr timestamps \<Rightarrow>
                                        Inr (map_option fst (match_range timestamps)))) of
                          Inl e \<Rightarrow> Inl e
                        | Inr None \<Rightarrow> Inr None
                        | Inr (Some start_raw) \<Rightarrow>
                            (let start_sec = timestamp_to_seconds (normalize_timestamp start_raw);
                                 clip_duration = dict_get d ''clip_duration_seconds''
                             in case no_duration clip_duration of
                                  Inl e \<Rightarrow> Inl e
                                | Inr True \<Rightarrow>
                                    (case stripped_field cut_sheet ''out_point'' of
                                       Inl e \<Rightarrow> Inl e
                                     | Inr out_point \<Rightarrow>
                                         if out_point \<noteq> [] then
                                           make_clip idx label start_sec
                                             (timestamp_to_seconds (normalize_timestamp out_point))
                                         else
                                           (case timestamps_of d of
                                              Inl e \<Rightarrow> Inl e
                                            | Inr timestamps \<Rightarrow>
                                                (case match_range timestamps of
                                                   None \<Rightarrow> Inr None
                                                 | Some (g1, end_raw) \<Rightarrow>
                                                     make_clip idx label start_sec
                                                       (timestamp_to_seconds
                                                          (normalize_timestamp end_raw)))))
                                | Inr False \<Rightarrow>
                                    (case plus_duration start_sec clip_duration of
                                       Inl e \<Rightarrow> Inl e
                                     | Inr end_sec \<Rightarrow> make_clip idx label start_sec end_sec)))))
      | _ \<Rightarrow> Inl AttributeError)"

fun ffmpeg_clips_from :: "nat \<Rightarrow> json list \<Rightarrow> exn + ffmpeg_clip list" where
  "ffmpeg_clips_from idx [] = Inr []"
| "ffmpeg_clips_from idx (moment # rest) =
     (case ffmpeg_clip_of idx moment of
        Inl e \<Rightarrow> Inl e
      | Inr r \<Rightarrow>
          (case ffmpeg_clips_from (Suc idx) rest of
             Inl e \<Rightarrow> Inl e
           | Inr clips \<Rightarrow> Inr (case r of None \<Rightarrow> clips | Some c \<Rightarrow> c # clips)))"

definition to_ffmpeg_json :: "json list \<Rightarrow> exn + ffmpeg_clip list" where
  \<comment> \<open>the list \<open>ffmpeg_clips\<close> that is handed to \<open>json.dumps\<close>\<close>
  "to_ffmpeg_json moments_with_cuts = ffmpeg_clips_from 1 moments_with_cuts"

section \<open>The export as the specification words it\<close>

text \<open>
  The derivation rule of the specification, written out for one moment, to be compared
  with the loop body of the code: the start is the in-point of the cut sheet when there
  is one, else the start of the timestamp range; the end is the start plus the duration
  plus the buffer when the duration is positive, else the out-point, else the end of the
  range; the index is the position of the moment in the input.
\<close>

definition field_text :: "(string \<times> json) list \<Rightarrow> string \<Rightarrow> string" where
  \<comment> \<open>a text field without the whitespace around it; empty when there is none\<close>
  "field_text d key = (case map_of d key of Some (JStr s) \<Rightarrow> strip s | _ \<Rightarrow> [])"

definition spec_cut_sheet :: "(string \<times> json) list \<Rightarrow> (string \<times> json) list" where
  "spec_cut_sheet d = (case map_of d ''editor_cut_sheet'' of Some (JObj cs) \<Rightarrow> cs | _ \<Rightarrow> [])"

definition spec_start_raw :: "(string \<times> json) list \<Rightarrow> string option" where
  "spec_start_raw d =
     (let in_point = field_text (spec_cut_sheet d) ''in_point''
      in if in_point \<noteq> [] then Some in_point
         else map_option fst (match_range (field_text d ''timestamps'')))"

definition spec_duration :: "json \<Rightarrow> pyfloat option" where
  \<comment> \<open>the duration when it is known and not \<open>\<le> 0\<close>\<close>
  "spec_duration v =
     (case v of
        JInt n \<Rightarrow> (if n > 0 then (case float_of_int n of Inr f \<Rightarrow> Some f | Inl e \<Rightarrow> None)
                   else None)
      | JBool b \<Rightarrow> (if b then Some (Finite 1) else None)
      | JFloat f \<Rightarrow>
          (case f of
             Finite q \<Rightarrow> (if q > 0 then Some f else None)
           | Inf neg \<Rightarrow> (if neg then None else Some f)
           | NaN \<Rightarrow> Some f)
      | _ \<Rightarrow> None)"

definition spec_end_sec :: "(string \<times> json) list \<Rightarrow> pyfloat \<Rightarrow> pyfloat option" where
  "spec_end_sec d start_sec =
     (case spec_duration (dict_get d ''clip_duration_seconds'') of
        Some duration \<Rightarrow> Some (fadd (fadd start_sec duration) BUFFER)
      | None \<Rightarrow>
          (let out_point = field_text (spec_cut_sheet d) ''out_point''
           in if out_point \<noteq> []
              then Some (timestamp_to_seconds (normalize_timestamp out_point))
              else map_option (\<lambda>(g1, end_raw). timestamp_to_seconds (normalize_timestamp end_raw))
                     (match_range (field_text d ''timestamps''))))"

definition spec_clip :: "nat \<Rightarrow> json \<Rightarrow> ffmpeg_clip option" where
  "spec_clip idx moment =
     (case moment of
        JObj d \<Rightarrow>
          (case spec_start_raw d of
             None \<Rightarrow> None
           | Some start_raw \<Rightarrow>
               (let start_sec = timestamp_to_seconds (normalize_timestamp start_raw)
                in case spec_end_sec d start_sec of
                     None \<Rightarrow> None
                   | Some end_sec \<Rightarrow>
                       (case seconds_to_timestamp start_sec of
                          Inl e \<Rightarrow> None
                        | Inr start \<Rightarrow>
                            (case seconds_to_timestamp end_sec of
                               Inl e \<Rightarrow> None
                             | Inr end_ts \<Rightarrow>
                                 Some \<lparr>c_index = idx,
                                       c_label = (let l = dict_get (spec_cut_sheet d) ''clip_label''
                                                  in if truthy l then l
                                                     else JStr (''CLIP_'' @ str_nat idx)),
                                       c_start = start, c_end = end_ts\<rparr>))))
      | _ \<Rightarrow> None)"

fun spec_clips_from :: "nat \<Rightarrow> json list \<Rightarrow> ffmpeg_clip list" where
  "spec_clips_from idx [] = []"
| "spec_clips_from idx (moment # rest) =
     (case spec_clip idx moment of
        None \<Rightarrow> spec_clips_from (Suc idx) rest
      | Some c \<Rightarrow> c # spec_clips_from (Suc idx) rest)"

text \<open>Two moments for running the export: the first has no timestamps.\<close>

definition sample_moments :: "json list" where
  "sample_moments =
     [JObj [(''quote'', JStr ''a''), (''timestamps'', JStr [])],
      JObj [(''quote'', JStr ''b''), (''timestamps'', JStr ''00:01.00-00:05.00''),
            (''clip_duration_seconds'', JInt 3)]]"


text \<open>Two moments that both give a clip: the first through the in-point of its cut
  sheet, the second through its timestamps; both have a duration.\<close>

definition sample_cut_moments :: "json list" where
  "sample_cut_moments =
     [JObj [(''quote'', JStr ''a''),
            (''editor_cut_sheet'',
             JObj [(''in_point'', JStr ''00:10.00''), (''clip_label'', JStr ''HOOK'')]),
            (''clip_duration_seconds'', JInt 5)],
      JObj [(''quote'', JStr ''b''), (''timestamps'', JStr ''01:02.50-01:09.00''),
            (''clip_duration_seconds'', JInt 3)]]"
section \<open>Properties of the chunker\<close>

lemma chunk_step_concat:
  "chunk_step mx (chunks, current) line = (chunks', current') \<Longrightarrow>
   concat chunks' @ current' = concat chunks @ current @ [line]"
  by (auto simp: chunk_step_def split: if_splits)

lemma chunk_fold_concat:
  "foldl (chunk_step mx) (chunks, current) ls = (chunks', current') \<Longrightarrow>
   concat chunks' @ current' = concat chunks @ current @ ls"
proof (induction ls arbitrary: chunks current)
  case Nil
  then show ?case by simp
next
  case (Cons l ls)
  obtain c1 cur1 where s: "chunk_step mx (chunks, current) l = (c1, cur1)"
    by (cases "chunk_step mx (chunks, current) l")
  from Cons.prems s have "foldl (chunk_step mx) (c1, cur1) ls = (chunks', current')" by simp
  from Cons.IH[OF this] chunk_step_concat[OF s] show ?case by simp
qed

lemma chunk_lines_concat: "concat (chunk_lines mx ls) = ls"
proof -
  obtain c cur where f: "foldl (chunk_step mx) ([], []) ls = (c, cur)"
    by (cases "foldl (chunk_step mx) ([], []) ls")
  from chunk_fold_concat[OF f] show ?thesis
    by (auto simp: chunk_lines_def f)
qed

lemma chunk_fold_no_flush:
  "sum_list (map length (current @ ls)) + 1 \<le> mx \<Longrightarrow>
   foldl (chunk_step mx) (chunks, current) ls = (chunks, current @ ls)"
proof (induction ls arbitrary: current)
  case Nil
  then show ?case by simp
next
  case (Cons l ls)
  have "chunk_step mx (chunks, current) l = (chunks, current @ [l])"
    using Cons.prems by (simp add: chunk_step_def)
  moreover have "sum_list (map length ((current @ [l]) @ ls)) + 1 \<le> mx"
    using Cons.prems by simp
  ultimately show ?case using Cons.IH[of "current @ [l]"] by simp
qed

lemma chunk_lines_single:
  "ls \<noteq> [] \<Longrightarrow> sum_list (map length ls) + 1 \<le> mx \<Longrightarrow> chunk_lines mx ls = [ls]"
  using chunk_fold_no_flush[of "[]" ls mx "[]"] by (simp add: chunk_lines_def)

lemma splitlines_from_plain:
  "\<forall>c\<in>set l. \<not> is_linebreak c \<Longrightarrow>
   splitlines_from cur l = (if cur @ l = [] then [] else [cur @ l])"
proof (induction cur l rule: splitlines_from.induct)
  case (1 cur) then show ?case by simp
next
  case (2 cur c) then show ?case by simp
next
  case (3 cur c d ds)
  then have "\<not> is_linebreak c" by simp
  then have "c \<noteq> CR" by (auto simp: is_linebreak_def CR_def)
  with 3 show ?case by simp
qed

lemma splitlines_from_break:
  "\<forall>c\<in>set l. \<not> is_linebreak c \<Longrightarrow>
   splitlines_from cur (l @ LF # rest) = (cur @ l) # splitlines_from [] rest"
proof (induction l arbitrary: cur)
  case Nil
  have "is_linebreak LF" "LF \<noteq> CR" by (simp_all add: is_linebreak_def LF_def CR_def)
  then show ?case by (cases rest) simp_all
next
  case (Cons c l)
  then have nb: "\<not> is_linebreak c" by simp
  then have "c \<noteq> CR" by (auto simp: is_linebreak_def CR_def)
  obtain d ds where e: "l @ LF # rest = d # ds" by (cases "l @ LF # rest") auto
  have "splitlines_from cur ((c # l) @ LF # rest) = splitlines_from (cur @ [c]) (l @ LF # rest)"
    using nb \<open>c \<noteq> CR\<close> e by simp
  also have "\<dots> = ((cur @ [c]) @ l) # splitlines_from [] rest"
    using Cons by simp
  finally show ?case by simp
qed

lemma splitlines_join_nl:
  "\<forall>l\<in>set ls. \<forall>c\<in>set l. \<not> is_linebreak c \<Longrightarrow> ls \<noteq> [] \<Longrightarrow> last ls \<noteq> [] \<Longrightarrow>
   splitlines (join_nl ls) = ls"
  unfolding splitlines_def
proof (induction ls rule: join_nl.induct)
  case 1 then show ?case by simp
next
  case (2 l) then show ?case by (simp add: splitlines_from_plain)
next
  case (3 l l' ls)
  then show ?case by (simp add: splitlines_from_break)
qed

lemma length_join_nl:
  "ls \<noteq> [] \<Longrightarrow> length (join_nl ls) + 1 = sum_list (map length ls) + length ls"
  by (induction ls rule: join_nl.induct) simp_all

text \<open>
  What the test of the loop does bound: in every chunk of two or more lines, the characters
  of the lines, the joining newlines left out, stay below the maximum.
\<close>

lemma chunk_step_ok:
  assumes "chunk_step mx (chunks, current) line = (chunks', current')"
    and "\<forall>c\<in>set chunks. chunk_ok mx c" and "current = [] \<or> chunk_ok mx current"
  shows "(\<forall>c\<in>set chunks'. chunk_ok mx c) \<and> (current' = [] \<or> chunk_ok mx current')"
  using assms by (auto simp: chunk_step_def chunk_ok_def split: if_splits)

lemma chunk_fold_ok:
  "foldl (chunk_step mx) (chunks, current) ls = (chunks', current') \<Longrightarrow>
   \<forall>c\<in>set chunks. chunk_ok mx c \<Longrightarrow> current = [] \<or> chunk_ok mx current \<Longrightarrow>
   (\<forall>c\<in>set chunks'. chunk_ok mx c) \<and> (current' = [] \<or> chunk_ok mx current')"
proof (induction ls arbitrary: chunks current)
  case Nil
  then show ?case by simp
next
  case (Cons l ls)
  obtain c1 cur1 where s: "chunk_step mx (chunks, current) l = (c1, cur1)"
    by (cases "chunk_step mx (chunks, current) l")
  from Cons.prems(1) s have f: "foldl (chunk_step mx) (c1, cur1) ls = (chunks', current')"
    by simp
  from chunk_step_ok[OF s Cons.prems(2) Cons.prems(3)]
  have "\<forall>c\<in>set c1. chunk_ok mx c" "cur1 = [] \<or> chunk_ok mx cur1" by simp_all
  from Cons.IH[OF f this] show ?case .
qed

lemma chunk_lines_line_sum_bound:
  "c \<in> set (chunk_lines mx ls) \<Longrightarrow> length c = 1 \<or> sum_list (map length c) + 1 \<le> mx"
proof -
  assume a: "c \<in> set (chunk_lines mx ls)"
  obtain ch cur where f: "foldl (chunk_step mx) ([], []) ls = (ch, cur)"
    by (cases "foldl (chunk_step mx) ([], []) ls")
  from chunk_fold_ok[OF f] have "(\<forall>c\<in>set ch. chunk_ok mx c) \<and> (cur = [] \<or> chunk_ok mx cur)"
    by simp
  with a f have "chunk_ok mx c" by (auto simp: chunk_lines_def split: if_splits)
  then show ?thesis by (simp add: chunk_ok_def)
qed

lemma demo_sum: "sum_list (map length demo_lines) = 8967"
  by (simp add: demo_lines_def sum_list_replicate)

text \<open>
  Claim C2. The chunks are to reproduce the transcript's lines in order (which
  \<open>chunk_lines_concat\<close> shows) and no chunk of more than one line is to have more
  characters than the configured maximum. The loop's test adds one for a newline but
  leaves out the newlines already joining the lines of \<open>current\<close>: the transcript of
  183 lines of 49 letters is split into its lines again by \<open>splitlines\<close>, becomes one
  chunk of 183 lines, and that chunk has 9149 characters, more than the 9000 of
  \<open>CHARS_PER_CHUNK\<close>.
\<close>

theorem C2_chunk_exceeds_maximum:
  "chunk_transcript CHARS_PER_CHUNK (join_nl demo_lines) = [join_nl demo_lines] \<and>
   splitlines (join_nl demo_lines) = demo_lines \<and>
   length demo_lines = 183 \<and>
   length (join_nl demo_lines) = 9149 \<and> 9149 > CHARS_PER_CHUNK"
proof -
  have ne: "demo_lines \<noteq> []" by (simp add: demo_lines_def)
  have nb: "\<forall>l\<in>set demo_lines. \<forall>c\<in>set l. \<not> is_linebreak c"
    by (simp add: demo_lines_def is_linebreak_def)
  have la: "last demo_lines \<noteq> []" by (simp add: demo_lines_def)
  have sp: "splitlines (join_nl demo_lines) = demo_lines"
    using splitlines_join_nl[OF nb ne la] .
  have ch: "chunk_lines CHARS_PER_CHUNK demo_lines = [demo_lines]"
    using chunk_lines_single[OF ne] demo_sum by (simp add: CHARS_PER_CHUNK_def)
  have len: "length (join_nl demo_lines) = 9149"
    using length_join_nl[OF ne] demo_sum by (simp add: demo_lines_def)
  have c1: "chunk_transcript CHARS_PER_CHUNK (join_nl demo_lines) = [join_nl demo_lines]"
    by (simp add: chunk_transcript_def sp ch)
  have c3: "length demo_lines = 183" by (simp add: demo_lines_def)
  have c5: "9149 > CHARS_PER_CHUNK" by (simp add: CHARS_PER_CHUNK_def)
  from c1 sp c3 len c5 show ?thesis by blast
qed

section \<open>Properties of the moment normalizer\<close>

lemma map_of_setdefault:
  "map_of (setdefault k v d) k' = (if k' = k \<and> map_of d k = None then Some v else map_of d k')"
  by (auto simp: setdefault_def update_conv' split: option.splits)

lemma map_of_update:
  "map_of (AList.update k v d) k' = (if k' = k then Some v else map_of d k')"
  by (simp add: update_conv')

lemma map_of_ensure_timestamps:
  "map_of (ensure_timestamps d) k =
     (if k = ''timestamps'' \<and> map_of d ''timestamps'' = None then Some (JStr []) else map_of d k)"
  by (auto simp: ensure_timestamps_def map_of_setdefault dict_get_def split: option.splits)

lemma map_of_fill_defaults_other:
  "k \<notin> {''persona_captions'', ''flags'', ''energy_tag'', ''why_it_hits'', ''viral_trigger''} \<Longrightarrow>
   map_of (fill_defaults d) k = map_of d k"
  by (simp add: fill_defaults_def map_of_setdefault)

lemma map_of_setdefault_keep:
  "map_of d k = Some v \<Longrightarrow> map_of (setdefault k' v' d) k = Some v"
  by (cases "k = k'") (simp_all add: map_of_setdefault)

lemma map_of_fill_defaults_keep:
  "map_of d k = Some v \<Longrightarrow> map_of (fill_defaults d) k = Some v"
  unfolding fill_defaults_def by (intro map_of_setdefault_keep)

lemma truthy_dict_get: "truthy (dict_get d k) \<Longrightarrow> \<exists>v. map_of d k = Some v \<and> truthy v \<and> dict_get d k = v"
  by (auto simp: dict_get_def split: option.splits)

lemma word_based_duration_floor: "word_based_duration n = \<lfloor>real n / 2.6\<rfloor>"
proof -
  have "real n / 2.6 = real_of_int (int (5 * n)) / real_of_int 13" by simp
  also have "\<lfloor>\<dots>\<rfloor> = int (5 * n) div 13" by (rule floor_divide_of_int_eq)
  finally show ?thesis by (simp add: word_based_duration_def zdiv_int)
qed

lemma word_based_duration_nonneg: "0 \<le> word_based_duration n"
  by (simp add: word_based_duration_def)

lemma llm_duration_of_cases:
  "llm_duration_of E =
     (case E of JInt n \<Rightarrow> n
              | JBool b \<Rightarrow> (if b then 1 else 0)
              | JFloat (Finite x) \<Rightarrow> trunc x
              | JStr s \<Rightarrow> (case int_of_str s of Inr n \<Rightarrow> n | Inl _ \<Rightarrow> 0)
              | _ \<Rightarrow> 0)"
proof (cases E)
  case (JFloat f)
  then show ?thesis by (cases f) (auto simp: llm_duration_of_def trunc_def)
next
  case (JStr s)
  have "int_of_str [] = Inl ValueError" by (simp add: int_of_str_def)
  with JStr show ?thesis by (auto simp: llm_duration_of_def split: sum.splits)
qed (auto simp: llm_duration_of_def)

lemma process_moment_JObj:
  "process_moment ident (JObj m) =
     (if \<not> truthy (dict_get m ''quote'') then Inr None
      else case dict_get m ''quote'' of
             JStr q \<Rightarrow>
               (case dict_get (enriched ident m q) ''persona_captions'' of
                  JObj pc \<Rightarrow> Inr (Some (JObj (AList.update ''persona_captions''
                                (JObj (fill_persona_captions pc)) (enriched ident m q))))
                | _ \<Rightarrow> Inl AttributeError)
           | _ \<Rightarrow> Inl AttributeError)"
proof -
  let ?m1 = "AList.update ''id'' (JStr ident) m"
  have gq: "dict_get ?m1 ''quote'' = dict_get m ''quote''"
    by (simp add: dict_get_def map_of_update)
  have q2: "truthy (dict_get m ''quote'') \<Longrightarrow>
            dict_get_default (ensure_timestamps ?m1) ''quote'' (JStr []) = dict_get m ''quote''"
    by (auto simp: dict_get_default_def dict_get_def map_of_ensure_timestamps map_of_update
             split: option.splits)
  have c2: "dict_get_default (ensure_timestamps ?m1) ''clip_duration_seconds'' (JInt 0)
            = dict_get_default m ''clip_duration_seconds'' (JInt 0)"
    by (simp add: dict_get_default_def map_of_ensure_timestamps map_of_update)
  have unf: "process_moment ident (JObj m) =
          (if \<not> truthy (dict_get ?m1 ''quote'') then Inr None
           else
             (case (if truthy (dict_get_default (ensure_timestamps ?m1) ''quote'' (JStr []))
                       then (case dict_get_default (ensure_timestamps ?m1) ''quote'' (JStr []) of JStr q \<Rightarrow> Inr (length (split q))
                                         | _ \<Rightarrow> Inl AttributeError)
                       else Inr 0) of
                   Inl e \<Rightarrow> Inl e
                 | Inr word_count \<Rightarrow>
                     (case dict_get (fill_defaults (AList.update ''clip_duration_seconds''
                                 (JInt (max (llm_duration_of (dict_get_default (ensure_timestamps ?m1) ''clip_duration_seconds'' (JInt 0))) (word_based_duration word_count))) (ensure_timestamps ?m1))) ''persona_captions'' of
                           JObj pc \<Rightarrow>
                             Inr (Some (JObj (AList.update ''persona_captions''
                                                (JObj (fill_persona_captions pc)) (fill_defaults (AList.update ''clip_duration_seconds''
                                 (JInt (max (llm_duration_of (dict_get_default (ensure_timestamps ?m1) ''clip_duration_seconds'' (JInt 0))) (word_based_duration word_count))) (ensure_timestamps ?m1))))))
                         | _ \<Rightarrow> Inl AttributeError)))"
    unfolding process_moment_def Let_def gjson.case ..
  show ?thesis
  proof (cases "truthy (dict_get m ''quote'')")
    case False
    then show ?thesis unfolding unf gq by simp
  next
    case True
    show ?thesis
      unfolding unf gq q2[OF True] c2 enriched_def
      using True by (cases "dict_get m ''quote''") simp_all
  qed
qed


lemma map_of_fill_persona_keep:
  "map_of pc k = Some v \<Longrightarrow> map_of (fill_persona_captions pc) k = Some v"
  unfolding fill_persona_captions_def persona_keys_def foldl.simps
  by (intro map_of_setdefault_keep)

lemma map_of_setdefault_same: "map_of (setdefault k v d) k \<noteq> None"
  by (simp add: map_of_setdefault)

lemma map_of_setdefault_mono: "map_of d k \<noteq> None \<Longrightarrow> map_of (setdefault k' v d) k \<noteq> None"
  by (simp add: map_of_setdefault)

lemma foldl_setdefault_mono:
  "map_of d k \<noteq> None \<Longrightarrow> map_of (foldl (\<lambda>d key. setdefault key v d) d ks) k \<noteq> None"
proof (induction ks arbitrary: d)
  case Nil
  then show ?case by simp
next
  case (Cons a ks)
  from Cons.IH[OF map_of_setdefault_mono[OF Cons.prems, of a v]] show ?case by simp
qed

lemma foldl_setdefault_keys:
  "k \<in> set ks \<Longrightarrow> map_of (foldl (\<lambda>d key. setdefault key v d) d ks) k \<noteq> None"
proof (induction ks arbitrary: d)
  case Nil
  then show ?case by simp
next
  case (Cons a ks)
  show ?case
  proof (cases "k = a")
    case True
    have "map_of (setdefault a v d) k \<noteq> None"
      unfolding True by (rule map_of_setdefault_same)
    from foldl_setdefault_mono[OF this] show ?thesis by simp
  next
    case False
    with Cons show ?thesis by simp
  qed
qed

lemma fill_persona_captions_keys:
  "k \<in> set persona_keys \<Longrightarrow> map_of (fill_persona_captions pc) k \<noteq> None"
  unfolding fill_persona_captions_def by (rule foldl_setdefault_keys)

lemma process_moment_not_dict: "\<forall>d. c \<noteq> JObj d \<Longrightarrow> process_moment ident c = Inr None"
  by (cases c) (simp_all add: process_moment_def)

lemma map_of_enriched_duration:
  "map_of (enriched ident m q) ''clip_duration_seconds'' =
     Some (JInt (max (llm_duration_of (dict_get_default m ''clip_duration_seconds'' (JInt 0)))
                     (word_based_duration (length (split q)))))"
  by (simp add: enriched_def map_of_fill_defaults_other map_of_update)

lemma map_of_enriched_quote:
  "map_of m ''quote'' = Some v \<Longrightarrow> map_of (enriched ident m q) ''quote'' = Some v"
  by (simp add: enriched_def map_of_fill_defaults_other map_of_update map_of_ensure_timestamps)

lemma map_of_enriched_keep:
  "map_of m k = Some v \<Longrightarrow> k \<noteq> ''id'' \<Longrightarrow> k \<noteq> ''clip_duration_seconds'' \<Longrightarrow>
   map_of (enriched ident m q) k = Some v"
  unfolding enriched_def
  by (rule map_of_fill_defaults_keep)
     (cases "k = ''timestamps''", simp_all add: map_of_update map_of_ensure_timestamps)


lemma process_moment_skip_iff:
  "process_moment ident c = Inr None \<longleftrightarrow> \<not> has_quote c"
proof (cases c)
  case (JObj m)
  show ?thesis unfolding JObj process_moment_JObj has_quote_def
    by (auto split: gjson.splits)
qed (simp_all add: process_moment_def has_quote_def)

lemma process_moment_emits:
  assumes "process_moment ident c = Inr (Some r)"
  shows "has_quote c \<and> well_formed_moment r \<and> extends c r"
proof -
  from assms obtain m where c: "c = JObj m"
    by (cases c) (simp_all add: process_moment_def)
  from assms have t: "truthy (dict_get m ''quote'')"
    unfolding c process_moment_JObj by (auto split: if_splits)
  with assms obtain q where q: "dict_get m ''quote'' = JStr q"
    unfolding c process_moment_JObj by (auto split: if_splits gjson.splits)
  with t have qne: "q \<noteq> []" by simp
  from q have mq: "map_of m ''quote'' = Some (JStr q)"
    by (auto simp: dict_get_def split: option.splits)
  from assms t q obtain pc where pc: "dict_get (enriched ident m q) ''persona_captions'' = JObj pc"
    and r: "r = JObj (AList.update ''persona_captions'' (JObj (fill_persona_captions pc)) (enriched ident m q))"
    unfolding c process_moment_JObj by (auto split: gjson.splits)
  let ?d = "AList.update ''persona_captions'' (JObj (fill_persona_captions pc)) (enriched ident m q)"
  have 1: "map_of ?d ''quote'' = Some (JStr q)"
    using map_of_enriched_quote[OF mq] by (simp add: map_of_update)
  have 2: "map_of ?d ''clip_duration_seconds'' =
        Some (JInt (max (llm_duration_of (dict_get_default m ''clip_duration_seconds'' (JInt 0)))
                     (word_based_duration (length (split q)))))"
    by (simp add: map_of_update map_of_enriched_duration)
  have 3: "map_of ?d ''persona_captions'' = Some (JObj (fill_persona_captions pc))"
    by (simp add: map_of_update)
  have 4: "list_all (\<lambda>k. has_key k (fill_persona_captions pc)) persona_keys"
    using fill_persona_captions_keys by (simp add: list_all_iff has_key_def)
  have nn: "0 \<le> max (llm_duration_of (dict_get_default m ''clip_duration_seconds'' (JInt 0)))
                     (word_based_duration (length (split q)))"
    using word_based_duration_nonneg[of "length (split q)"] by linarith
  have wf: "well_formed_moment r"
    unfolding well_formed_moment_def r using 1 2 3 4 qne nn by simp
  have "\<forall>k v. map_of m k = Some v \<longrightarrow>
           k \<notin> {''id'', ''clip_duration_seconds'', ''persona_captions''} \<longrightarrow> map_of ?d k = Some v"
    by (simp add: map_of_update map_of_enriched_keep)
  moreover have "\<forall>k\<in>set (map fst m). \<exists>v. map_of m k = Some v"
    using map_of_eq_None_iff[of m] by fastforce
  ultimately have "\<forall>k\<in>set (map fst m). k \<in> {''id'', ''clip_duration_seconds'', ''persona_captions''}
                      \<or> map_of ?d k = map_of m k"
    by metis
  then have ex: "extends c r"
    unfolding extends_def c r by (simp add: list_all_iff)
  from t wf ex show ?thesis by (simp add: c has_quote_def)
qed

lemma process_moments_emitted:
  assumes "process_moments ids i cands = Inr out"
  shows "list_all2 extends (filter has_quote cands) out \<and> list_all well_formed_moment out"
  using assms
proof (induction cands arbitrary: i out)
  case Nil
  then show ?case by simp
next
  case (Cons c cands)
  from Cons.prems obtain r out' where r: "process_moment (ids i) c = Inr r"
    and o: "process_moments ids (Suc i) cands = Inr out'"
    and out: "out = (case r of None \<Rightarrow> out' | Some m \<Rightarrow> m # out')"
    by (auto split: sum.splits)
  note IH = Cons.IH[OF o]
  show ?case
  proof (cases r)
    case None
    with r have "\<not> has_quote c" by (simp add: process_moment_skip_iff)
    with IH out None show ?thesis by simp
  next
    case (Some m)
    from process_moment_emits[OF r[unfolded Some]] IH out Some show ?thesis by simp
  qed
qed

lemma parse_moment_response_undecodable:
  "load_response loads response_text = JNull \<Longrightarrow>
   parse_moment_response loads ids response_text = Inr []"
  by (simp add: parse_moment_response_def)

text \<open>
  Claim C1. For every input string \<open>parse_moment_response\<close> is to return a list and never
  to raise. Text that cannot be decoded does give the empty list
  (\<open>parse_moment_response_undecodable\<close>), but the loop of step 5 runs over whatever is
  under \<open>"moments"\<close>: for \<open>{"moments": null}\<close> the call \<open>enumerate(None)\<close> raises
  \<open>TypeError\<close>, and for a moment whose \<open>persona_captions\<close> is \<open>null\<close> the call of
  \<open>setdefault\<close> on \<open>None\<close> raises \<open>AttributeError\<close>.
\<close>

theorem C1_parser_raises:
  \<open>parse_moment_response json_loads sample_ids ''{"moments": null}'' = Inl TypeError \<and>
   parse_moment_response json_loads sample_ids
     ''{"moments": [{"quote": "a", "persona_captions": null}]}'' = Inl AttributeError\<close>
  by (rule conjI; code_simp)

text \<open>
  Claim C4, as stated: \<open>clip_duration_seconds\<close> is \<open>max(E, floor(N / 2.6))\<close> for the
  estimate \<open>E\<close> of the model. It fails for an estimate with a fraction: for the one-word
  quote \<open>hi\<close> and the estimate 17.5 the code stores 17, and \<open>max(17.5, floor(1 / 2.6))\<close>
  is 17.5.
\<close>

theorem C4_fractional_estimate_counterexample:
  \<open>process_moment ''00000000''
     (JObj [(''quote'', JStr ''hi''), (''clip_duration_seconds'', JFloat (Finite (35 / 2)))])
   = Inr (Some (JObj
       [(''quote'', JStr ''hi''), (''clip_duration_seconds'', JInt 17),
        (''id'', JStr ''00000000''), (''timestamps'', JStr []),
        (''viral_trigger'', JStr []), (''why_it_hits'', JStr []),
        (''energy_tag'', JStr []), (''flags'', JArr []),
        (''persona_captions'',
         JObj [(''historian'', JStr []), (''thomist'', JStr []),
               (''ex_protestant'', JStr []), (''meme_catholic'', JStr []),
               (''old_world_catholic'', JStr []), (''catholic'', JStr [])])])) \<and>
   real_of_int 17 \<noteq> max (35 / 2) (real_of_int \<lfloor>real (length (split ''hi'')) / 2.6\<rfloor>)\<close>
proof (rule conjI)
  show \<open>real_of_int 17 \<noteq> max (35 / 2) (real_of_int \<lfloor>real (length (split ''hi'')) / 2.6\<rfloor>)\<close>
    by (simp add: split_def is_space_def)
qed code_simp

text \<open>
  Claim C4, amended. For every moment the normalizer emits, whose quote has \<open>N\<close> words,
  \<open>clip_duration_seconds\<close> is \<open>max(int(E), floor(N / 2.6))\<close>, where \<open>int(E)\<close> is the
  estimate converted as Python's \<open>int\<close> does: an integer as it is, a float truncated
  toward zero, \<open>true\<close> as 1, a string of decimal digits as its value; and 0 when the
  estimate is absent, \<open>null\<close>, or cannot be converted (any other string, a list, a dict,
  an infinity, not-a-number).
\<close>

theorem C4_clip_duration:
  assumes "process_moment ident (JObj m) = Inr (Some (JObj m'))"
  shows "case map_of m ''quote'' of
           Some (JStr q) \<Rightarrow>
             map_of m' ''clip_duration_seconds'' =
               Some (JInt (max (case map_of m ''clip_duration_seconds'' of
                                  None \<Rightarrow> 0
                                | Some E \<Rightarrow>
                                    (case E of
                                       JInt n \<Rightarrow> n
                                     | JBool b \<Rightarrow> (if b then 1 else 0)
                                     | JFloat (Finite x) \<Rightarrow> trunc x
                                     | JStr s \<Rightarrow> (case int_of_str s of Inr n \<Rightarrow> n | Inl _ \<Rightarrow> 0)
                                     | _ \<Rightarrow> 0))
                               \<lfloor>real (length (split q)) / 2.6\<rfloor>))
         | _ \<Rightarrow> False"
proof -
  from assms have t: "truthy (dict_get m ''quote'')"
    unfolding process_moment_JObj by (auto split: if_splits)
  with assms obtain q where q: "dict_get m ''quote'' = JStr q"
    unfolding process_moment_JObj by (auto split: if_splits gjson.splits)
  then have mq: "map_of m ''quote'' = Some (JStr q)"
    by (auto simp: dict_get_def split: option.splits)
  from assms t q obtain pc where
    m': "m' = AList.update ''persona_captions'' (JObj (fill_persona_captions pc)) (enriched ident m q)"
    unfolding process_moment_JObj by (auto split: gjson.splits)
  have "map_of m' ''clip_duration_seconds'' =
        Some (JInt (max (llm_duration_of (dict_get_default m ''clip_duration_seconds'' (JInt 0)))
                        (word_based_duration (length (split q)))))"
    unfolding m' by (simp add: map_of_update map_of_enriched_duration)
  moreover have "llm_duration_of (dict_get_default m ''clip_duration_seconds'' (JInt 0)) =
      (case map_of m ''clip_duration_seconds'' of
         None \<Rightarrow> 0
       | Some E \<Rightarrow>
           (case E of
              JInt n \<Rightarrow> n
            | JBool b \<Rightarrow> (if b then 1 else 0)
            | JFloat (Finite x) \<Rightarrow> trunc x
            | JStr s \<Rightarrow> (case int_of_str s of Inr n \<Rightarrow> n | Inl _ \<Rightarrow> 0)
            | _ \<Rightarrow> 0))"
  proof (cases "map_of m ''clip_duration_seconds''")
    case None
    then show ?thesis by (simp add: dict_get_default_def llm_duration_of_def)
  next
    case (Some E)
    then show ?thesis by (simp add: dict_get_default_def llm_duration_of_cases)
  qed
  ultimately show ?thesis
    by (simp add: mq word_based_duration_floor)
qed

text \<open>The theorem at the example of the specification: eight words and the estimate 3.\<close>

theorem C4_clip_duration_witness:
  \<open>process_moment ''00000000''
     (JObj [(''quote'', JStr ''Hello World, this is a test of the pipeline''),
            (''clip_duration_seconds'', JInt 3)])
   = Inr (Some (JObj
       [(''quote'', JStr ''Hello World, this is a test of the pipeline''),
        (''clip_duration_seconds'', JInt 3),
        (''id'', JStr ''00000000''), (''timestamps'', JStr []),
        (''viral_trigger'', JStr []), (''why_it_hits'', JStr []),
        (''energy_tag'', JStr []), (''flags'', JArr []),
        (''persona_captions'',
         JObj [(''historian'', JStr []), (''thomist'', JStr []),
               (''ex_protestant'', JStr []), (''meme_catholic'', JStr []),
               (''old_world_catholic'', JStr []), (''catholic'', JStr [])])])) \<and>
   max 3 \<lfloor>real (length (split ''Hello World, this is a test of the pipeline'')) / 2.6\<rfloor> = 3\<close>
proof -
  have h: \<open>process_moment ''00000000''
     (JObj [(''quote'', JStr ''Hello World, this is a test of the pipeline''),
            (''clip_duration_seconds'', JInt 3)])
   = Inr (Some (JObj
       [(''quote'', JStr ''Hello World, this is a test of the pipeline''),
        (''clip_duration_seconds'', JInt 3),
        (''id'', JStr ''00000000''), (''timestamps'', JStr []),
        (''viral_trigger'', JStr []), (''why_it_hits'', JStr []),
        (''energy_tag'', JStr []), (''flags'', JArr []),
        (''persona_captions'',
         JObj [(''historian'', JStr []), (''thomist'', JStr []),
               (''ex_protestant'', JStr []), (''meme_catholic'', JStr []),
               (''old_world_catholic'', JStr []), (''catholic'', JStr [])])]))\<close>
    by code_simp
  from C4_clip_duration[OF h] h show ?thesis by simp
qed

text \<open>
  Claim C5. Whenever the normalizer returns, every moment it emits has a quote that is not
  empty, a \<open>clip_duration_seconds\<close> that is a non-negative integer and all six persona
  keys; and the emitted moments are, in the order of the input, the candidates that are
  dicts with a quote, each with fields added: the candidates without a quote and the
  entries that are not dicts are left out.
\<close>

theorem C5_normalizer_invariants:
  assumes "process_moments ids i candidates = Inr out"
  shows "list_all well_formed_moment out \<and> list_all2 extends (filter has_quote candidates) out"
  using process_moments_emitted[OF assms] by simp

theorem C5_normalizer_invariants_witness:
  \<open>process_moments sample_ids 0
     [JObj [(''quote'', JStr ''a'')], JInt 3, JObj [(''quote'', JStr [])],
      JObj [(''quote'', JStr ''b c''), (''flags'', JArr [JStr ''REWATCH''])]]
   = Inr [JObj [(''quote'', JStr ''a''), (''id'', JStr ''00000000''), (''timestamps'', JStr []),
                (''clip_duration_seconds'', JInt 0),
                (''viral_trigger'', JStr []), (''why_it_hits'', JStr []),
                (''energy_tag'', JStr []), (''flags'', JArr []),
                (''persona_captions'',
                 JObj [(''historian'', JStr []), (''thomist'', JStr []),
                       (''ex_protestant'', JStr []), (''meme_catholic'', JStr []),
                       (''old_world_catholic'', JStr []), (''catholic'', JStr [])])],
          JObj [(''quote'', JStr ''b c''), (''flags'', JArr [JStr ''REWATCH'']),
                (''id'', JStr ''00000003''), (''timestamps'', JStr []),
                (''clip_duration_seconds'', JInt 0),
                (''viral_trigger'', JStr []), (''why_it_hits'', JStr []),
                (''energy_tag'', JStr []),
                (''persona_captions'',
                 JObj [(''historian'', JStr []), (''thomist'', JStr []),
                       (''ex_protestant'', JStr []), (''meme_catholic'', JStr []),
                       (''old_world_catholic'', JStr []), (''catholic'', JStr [])])]] \<and>
   list_all2 extends
     (filter has_quote
       [JObj [(''quote'', JStr ''a'')], JInt 3, JObj [(''quote'', JStr [])],
        JObj [(''quote'', JStr ''b c''), (''flags'', JArr [JStr ''REWATCH''])]])
     [JObj [(''quote'', JStr ''a''), (''id'', JStr ''00000000''), (''timestamps'', JStr []),
                (''clip_duration_seconds'', JInt 0),
                (''viral_trigger'', JStr []), (''why_it_hits'', JStr []),
                (''energy_tag'', JStr []), (''flags'', JArr []),
                (''persona_captions'',
                 JObj [(''historian'', JStr []), (''thomist'', JStr []),
                       (''ex_protestant'', JStr []), (''meme_catholic'', JStr []),
                       (''old_world_catholic'', JStr []), (''catholic'', JStr [])])],
          JObj [(''quote'', JStr ''b c''), (''flags'', JArr [JStr ''REWATCH'']),
                (''id'', JStr ''00000003''), (''timestamps'', JStr []),
                (''clip_duration_seconds'', JInt 0),
                (''viral_trigger'', JStr []), (''why_it_hits'', JStr []),
                (''energy_tag'', JStr []),
                (''persona_captions'',
                 JObj [(''historian'', JStr []), (''thomist'', JStr []),
                       (''ex_protestant'', JStr []), (''meme_catholic'', JStr []),
                       (''old_world_catholic'', JStr []), (''catholic'', JStr [])])]]\<close>
proof -
  have h: \<open>process_moments sample_ids 0
     [JObj [(''quote'', JStr ''a'')], JInt 3, JObj [(''quote'', JStr [])],
      JObj [(''quote'', JStr ''b c''), (''flags'', JArr [JStr ''REWATCH''])]]
   = Inr [JObj [(''quote'', JStr ''a''), (''id'', JStr ''00000000''), (''timestamps'', JStr []),
                (''clip_duration_seconds'', JInt 0),
                (''viral_trigger'', JStr []), (''why_it_hits'', JStr []),
                (''energy_tag'', JStr []), (''flags'', JArr []),
                (''persona_captions'',
                 JObj [(''historian'', JStr []), (''thomist'', JStr []),
                       (''ex_protestant'', JStr []), (''meme_catholic'', JStr []),
                       (''old_world_catholic'', JStr []), (''catholic'', JStr [])])],
          JObj [(''quote'', JStr ''b c''), (''flags'', JArr [JStr ''REWATCH'']),
                (''id'', JStr ''00000003''), (''timestamps'', JStr []),
                (''clip_duration_seconds'', JInt 0),
                (''viral_trigger'', JStr []), (''why_it_hits'', JStr []),
                (''energy_tag'', JStr []),
                (''persona_captions'',
                 JObj [(''historian'', JStr []), (''thomist'', JStr []),
                       (''ex_protestant'', JStr []), (''meme_catholic'', JStr []),
                       (''old_world_catholic'', JStr []), (''catholic'', JStr [])])]]\<close>
    by code_simp
  from C5_normalizer_invariants[OF h] h show ?thesis by blast
qed

section \<open>Properties of the response parser\<close>

lemma strip_all_space:
  assumes "list_all is_space s"
  shows "strip s = []"
proof -
  have "dropWhile is_space s = []" using assms by (simp add: list_all_iff)
  show ?thesis
    unfolding strip_def lstrip_def rstrip_def \<open>dropWhile is_space s = []\<close> by simp
qed

lemma dropWhile_hd_self: "s \<noteq> [] \<Longrightarrow> \<not> P (hd s) \<Longrightarrow> dropWhile P s = s"
  by (cases s) simp_all

lemma strip_core:
  assumes "core \<noteq> []" "\<not> is_space (hd core)" "\<not> is_space (last core)"
    and "list_all is_space ws1" "list_all is_space ws2"
  shows "strip (ws1 @ core @ ws2) = core"
proof -
  have "lstrip (ws1 @ core @ ws2) = core @ ws2"
    using assms by (simp add: lstrip_def list_all_iff dropWhile_append2 dropWhile_hd_self)
  moreover have "dropWhile is_space (rev ws2 @ rev core) = rev core"
  proof -
    have "\<And>x. x \<in> set (rev ws2) \<Longrightarrow> is_space x" using assms(5) by (simp add: list_all_iff)
    then have "dropWhile is_space (rev ws2 @ rev core) = dropWhile is_space (rev core)"
      by (rule dropWhile_append2)
    also have "\<dots> = rev core"
      by (rule dropWhile_hd_self) (use assms in \<open>simp_all add: hd_rev\<close>)
    finally show ?thesis .
  qed
  ultimately show ?thesis by (simp add: strip_def rstrip_def)
qed

lemma strip_decomp:
  "\<exists>ws1 core ws2. s = ws1 @ core @ ws2 \<and> list_all is_space ws1 \<and> list_all is_space ws2 \<and>
     strip s = core \<and> (core = [] \<or> (\<not> is_space (hd core) \<and> \<not> is_space (last core)))"
proof -
  let ?rest = "dropWhile is_space s"
  let ?ws1 = "takeWhile is_space s"
  let ?core = "rev (dropWhile is_space (rev ?rest))"
  let ?ws2 = "rev (takeWhile is_space (rev ?rest))"
  have r: "?rest = ?core @ ?ws2"
    by (metis rev_append rev_rev_ident takeWhile_dropWhile_id)
  have 1: "s = ?ws1 @ ?core @ ?ws2" using r by (metis takeWhile_dropWhile_id)
  have tw: "list_all is_space (takeWhile is_space xs)" for xs
    by (auto simp: list_all_iff dest: set_takeWhileD)
  have 2: "list_all is_space ?ws1" "list_all is_space ?ws2"
    using tw by (simp_all only: list_all_rev)
  have 3: "strip s = ?core" by (simp add: strip_def lstrip_def rstrip_def)
  have 4: "?core = [] \<or> (\<not> is_space (hd ?core) \<and> \<not> is_space (last ?core))"
  proof (cases "?core = []")
    case False
    then have ne: "dropWhile is_space (rev ?rest) \<noteq> []" by simp
    have "last ?core = hd (dropWhile is_space (rev ?rest))" using ne by (simp add: last_rev)
    then have l: "\<not> is_space (last ?core)" using hd_dropWhile[OF ne] by simp
    have "?rest \<noteq> []"
    proof
      assume e: "?rest = []"
      have "?core = []" unfolding e by simp
      with False show False ..
    qed
    then have h0: "\<not> is_space (hd ?rest)" using hd_dropWhile by blast
    have "hd ?rest = hd ?core" using r False by (metis hd_append2)
    with h0 l show ?thesis by simp
  qed simp
  from 1 2 3 4 show ?thesis by blast
qed

lemma strip_idem: "strip (strip s) = strip s"
proof -
  obtain core where d: "strip s = core"
    "core = [] \<or> (\<not> is_space (hd core) \<and> \<not> is_space (last core))"
    using strip_decomp[of s] by blast
  show ?thesis
  proof (cases "core = []")
    case True
    have "strip [] = []" by (simp add: strip_def lstrip_def rstrip_def)
    then show ?thesis unfolding d(1) True .
  next
    case False
    with d strip_core[of core "[]" "[]"] show ?thesis by simp
  qed
qed

lemma strip_append_space:
  assumes "list_all is_space ws"
  shows "strip (s @ ws) = strip s"
proof -
  obtain ws1 core ws2 where d: "s = ws1 @ core @ ws2" "list_all is_space ws1"
    "list_all is_space ws2" "strip s = core"
    "core = [] \<or> (\<not> is_space (hd core) \<and> \<not> is_space (last core))"
    using strip_decomp[of s] by blast
  show ?thesis
  proof (cases "core = []")
    case True
    with d assms have "list_all is_space (s @ ws)" by simp
    from strip_all_space[OF this] d True show ?thesis by simp
  next
    case False
    have "list_all is_space (ws2 @ ws)" using d assms by simp
    from strip_core[OF False _ _ d(2) this] d False
    show ?thesis by simp
  qed
qed

lemma strip_code_fences_wrapped:
  assumes tag: "LF \<notin> set tag" and nf: "\<not> prefix fence (strip content)"
    and ws: "list_all is_space ws1" "list_all is_space ws2"
  shows "strip_code_fences (ws1 @ fence @ tag @ LF # content @ LF # fence @ ws2)
         = strip_code_fences content"
proof -
  let ?w = "fence @ tag @ LF # content @ LF # fence"
  have bt: "\<not> is_space (CHR 0x60)" by (simp add: is_space_def)
  have w: "?w \<noteq> []" "hd ?w = CHR 0x60" "last ?w = CHR 0x60" by (simp_all add: fence_def)
  have s1: "strip (ws1 @ ?w @ ws2) = ?w"
    by (rule strip_core[OF w(1) _ _ ws]) (simp_all add: w bt)
  have p: "prefix fence ?w" by simp
  have lf: "LF \<in> set ?w" by simp
  have "LF \<notin> set (fence @ tag)" using tag by (simp add: fence_def LF_def)
  then have dw: "dropWhile (\<lambda>c. c \<noteq> LF) ((fence @ tag) @ LF # content @ LF # fence)
             = LF # content @ LF # fence"
    by (subst dropWhile_append2) auto
  have sf: "suffix fence (content @ LF # fence)"
    by (simp add: suffix_def)
  have tk: "take (length (content @ LF # fence) - 3) (content @ LF # fence) = content @ [LF]"
    by (simp add: fence_def)
  have sp: "is_space LF" by (simp add: is_space_def LF_def)
  have lhs: "strip_code_fences (ws1 @ ?w @ ws2) = strip (content @ [LF])"
    unfolding strip_code_fences_def s1 Let_def using p lf dw sf tk by simp
  have rhs: "strip_code_fences content = strip content"
    unfolding strip_code_fences_def Let_def using nf by (simp add: strip_idem)
  from lhs rhs strip_append_space[of "[LF]" content] sp show ?thesis by simp
qed

lemma re_search_block_first_last:
  assumes "l \<notin> set pre" "r \<notin> set post"
  shows "re_search_block l r (pre @ l # mid @ r # post) = Some (l # mid @ [r])"
proof -
  have 1: "dropWhile (\<lambda>c. c \<noteq> l) (pre @ l # mid @ r # post) = l # mid @ r # post"
    using assms(1) by (subst dropWhile_append2) auto
  have 2: "dropWhile (\<lambda>c. c \<noteq> r) (rev post @ r # rev mid) = r # rev mid"
    using assms(2) by (subst dropWhile_append2) auto
  show ?thesis unfolding re_search_block_def 1 using 2 by simp
qed

lemma dropWhile_first_marker:
  "r \<in> set (tl (dropWhile (\<lambda>c. c \<noteq> l) (pre @ l # mid @ r # post)))"
  by (induction pre) auto

lemma re_search_block_None_iff:
  "re_search_block l r s = None \<longleftrightarrow> (\<forall>pre mid post. s \<noteq> pre @ l # mid @ r # post)"
proof
  assume n: "re_search_block l r s = None"
  show "\<forall>pre mid post. s \<noteq> pre @ l # mid @ r # post"
  proof (intro allI notI)
    fix pre mid post assume s: "s = pre @ l # mid @ r # post"
    from dropWhile_first_marker[of r l pre mid post]
    have "r \<in> set (tl (dropWhile (\<lambda>c. c \<noteq> l) s))" unfolding s .
    with n show False
      by (cases "dropWhile (\<lambda>c. c \<noteq> l) s") (simp_all add: re_search_block_def)
  qed
next
  assume a: "\<forall>pre mid post. s \<noteq> pre @ l # mid @ r # post"
  show "re_search_block l r s = None"
  proof (cases "dropWhile (\<lambda>c. c \<noteq> l) s")
    case Nil
    show ?thesis unfolding re_search_block_def Nil by simp
  next
    case (Cons x body)
    have "\<not> (hd (dropWhile (\<lambda>c. c \<noteq> l) s) \<noteq> l)"
      by (rule hd_dropWhile) (simp add: Cons)
    then have x: "x = l" by (simp add: Cons)
    have "s = takeWhile (\<lambda>c. c \<noteq> l) s @ dropWhile (\<lambda>c. c \<noteq> l) s" by simp
    then have s: "s = takeWhile (\<lambda>c. c \<noteq> l) s @ l # body"
      unfolding Cons x .
    have "r \<notin> set body"
    proof
      assume "r \<in> set body"
      then obtain mid post where "body = mid @ r # post" by (meson split_list)
      with s a show False by blast
    qed
    with Cons show ?thesis by (simp add: re_search_block_def)
  qed
qed

text \<open>
  Claim C8, as stated: when the direct parse fails, a valid JSON object embedded in prose
  is extracted and parsed. The pattern takes the text from the first opening brace to the
  last closing brace, so prose with a brace of its own, or a second object, is taken into
  the candidate: here each of the two objects is valid JSON, the candidate runs from the
  first to the end of the second, it does not parse, and the result is the empty list.
\<close>

theorem C8_two_objects_counterexample:
  \<open>json_loads ''{"quote":"a"}'' = Some (JObj [(''quote'', JStr ''a'')]) \<and>
   find_candidate ''First {"quote":"a"} then {"quote":"b"}''
     = Some ''{"quote":"a"} then {"quote":"b"}'' \<and>
   load_response json_loads ''First {"quote":"a"} then {"quote":"b"}'' = JNull \<and>
   parse_moment_response json_loads sample_ids ''First {"quote":"a"} then {"quote":"b"}''
     = Inr []\<close>
  by (intro conjI; code_simp)

text \<open>
  Claim C8, amended. When the direct parse of the cleaned response fails, the candidate
  is the text from the first \<open>{\<close> to the last \<open>}\<close> after it; only if there is no \<open>{\<close>
  with a \<open>}\<close> after it, the candidate is the text from the first \<open>[\<close> to the last \<open>]\<close>
  after it; the parser then attempts to parse the candidate. So a JSON object embedded in
  prose is extracted and parsed when the prose before it has no \<open>{\<close> and the prose after
  it has no \<open>}\<close>.
\<close>

theorem C8_fallback_extraction:
  assumes "try_load_json loads (strip_code_fences response_text) = JNull"
  shows "(\<forall>pre mid post.
            strip_code_fences response_text = pre @ CHR ''{'' # mid @ CHR ''}'' # post \<longrightarrow>
            CHR ''{'' \<notin> set pre \<longrightarrow> CHR ''}'' \<notin> set post \<longrightarrow>
            load_response loads response_text = try_load_json loads (CHR ''{'' # mid @ ''}'')) \<and>
         ((\<forall>pre mid post.
             strip_code_fences response_text \<noteq> pre @ CHR ''{'' # mid @ CHR ''}'' # post) \<longrightarrow>
          (\<forall>pre mid post.
             strip_code_fences response_text = pre @ CHR ''['' # mid @ CHR '']'' # post \<longrightarrow>
             CHR ''['' \<notin> set pre \<longrightarrow> CHR '']'' \<notin> set post \<longrightarrow>
             load_response loads response_text = try_load_json loads (CHR ''['' # mid @ '']''))) \<and>
         ((\<forall>pre mid post.
             strip_code_fences response_text \<noteq> pre @ CHR ''{'' # mid @ CHR ''}'' # post) \<and>
          (\<forall>pre mid post.
             strip_code_fences response_text \<noteq> pre @ CHR ''['' # mid @ CHR '']'' # post) \<longrightarrow>
          load_response loads response_text = JNull)"
proof -
  let ?clean = "strip_code_fences response_text"
  have lr: "load_response loads response_text =
        (case find_candidate ?clean of None \<Rightarrow> JNull
         | Some candidate \<Rightarrow> try_load_json loads candidate)"
    using assms by (simp add: load_response_def)
  have a: "load_response loads response_text = try_load_json loads (CHR ''{'' # mid @ ''}'')"
    if "?clean = pre @ CHR ''{'' # mid @ CHR ''}'' # post" "CHR ''{'' \<notin> set pre"
      "CHR ''}'' \<notin> set post" for pre mid post
    unfolding lr find_candidate_def that(1)
    by (simp add: re_search_block_first_last[OF that(2) that(3)])
  have b: "load_response loads response_text = try_load_json loads (CHR ''['' # mid @ '']'')"
    if "\<forall>pre mid post. ?clean \<noteq> pre @ CHR ''{'' # mid @ CHR ''}'' # post"
      "?clean = pre @ CHR ''['' # mid @ CHR '']'' # post" "CHR ''['' \<notin> set pre"
      "CHR '']'' \<notin> set post" for pre mid post
  proof -
    have n: "re_search_block CHR ''{'' CHR ''}'' ?clean = None"
      by (rule iffD2[OF re_search_block_None_iff]) (rule that(1))
    have "find_candidate ?clean = Some (CHR ''['' # mid @ '']'')"
      unfolding find_candidate_def n unfolding that(2)
      by (simp add: re_search_block_first_last[OF that(3) that(4)])
    then show ?thesis unfolding lr by simp
  qed
  have c: "load_response loads response_text = JNull"
    if "\<forall>pre mid post. ?clean \<noteq> pre @ CHR ''{'' # mid @ CHR ''}'' # post"
      "\<forall>pre mid post. ?clean \<noteq> pre @ CHR ''['' # mid @ CHR '']'' # post"
  proof -
    have n1: "re_search_block CHR ''{'' CHR ''}'' ?clean = None"
      by (rule iffD2[OF re_search_block_None_iff]) (rule that(1))
    have n2: "re_search_block CHR ''['' CHR '']'' ?clean = None"
      by (rule iffD2[OF re_search_block_None_iff]) (rule that(2))
    show ?thesis unfolding lr find_candidate_def n1 n2 by simp
  qed
  from a b c show ?thesis by blast
qed

theorem C8_fallback_extraction_witness:
  \<open>try_load_json json_loads (strip_code_fences ''Sure: {"quote":"q"} done'') = JNull \<and>
   load_response json_loads ''Sure: {"quote":"q"} done'' = JObj [(''quote'', JStr ''q'')]\<close>
proof -
  have h: \<open>try_load_json json_loads (strip_code_fences ''Sure: {"quote":"q"} done'') = JNull\<close>
    by code_simp
  have e: \<open>strip_code_fences ''Sure: {"quote":"q"} done''
           = ''Sure: '' @ CHR ''{'' # ''"quote":"q"'' @ CHR ''}'' # '' done''\<close>
    by code_simp
  have v: \<open>try_load_json json_loads (CHR ''{'' # ''"quote":"q"'' @ ''}'')
           = JObj [(''quote'', JStr ''q'')]\<close>
    by code_simp
  from C8_fallback_extraction[OF h, THEN conjunct1, rule_format, OF e] v h
  show ?thesis by simp
qed

text \<open>
  Claim C9, as stated: a response wrapped in one outer fenced block parses to the same
  list as its content. The content here begins with a fence of its own: wrapped, the outer
  fence alone is removed and the object on the inner fence line is found; unwrapped, the
  line of the inner fence is removed with the object on it, and the rest is an empty list.
\<close>

theorem C9_inner_fence_counterexample:
  \<open>parse_moment_response json_loads sample_ids
     ''```json\<newline>```{"quote":"a"}\<newline>[]\<newline>```''
   \<noteq> parse_moment_response json_loads sample_ids ''```{"quote":"a"}\<newline>[]'' \<and>
   parse_moment_response json_loads sample_ids ''```{"quote":"a"}\<newline>[]'' = Inr []\<close>
  by (intro conjI; code_simp)

text \<open>
  Claim C9, amended. For a response that is an opening fence line with any tag, the
  content, and a closing fence line, with any whitespace around it, the parser returns what
  it returns for the content, provided the content does not itself begin, after leading
  whitespace, with a fence. The identifiers drawn are the same in both calls.
\<close>

theorem C9_fenced_response:
  assumes "LF \<notin> set tag" and "\<not> prefix fence (strip content)"
    and "list_all is_space ws1" and "list_all is_space ws2"
  shows "parse_moment_response loads ids (ws1 @ fence @ tag @ LF # content @ LF # fence @ ws2)
         = parse_moment_response loads ids content"
  unfolding parse_moment_response_def load_response_def
  by (simp only: strip_code_fences_wrapped[OF assms])

theorem C9_fenced_response_witness:
  \<open>LF \<notin> set ''json'' \<and> \<not> prefix fence (strip ''{"moments": [{"quote": "a b c"}]}'') \<and>
   parse_moment_response json_loads sample_ids
     ([] @ fence @ ''json'' @ LF # ''{"moments": [{"quote": "a b c"}]}'' @ LF # fence @ [LF])
   = parse_moment_response json_loads sample_ids ''{"moments": [{"quote": "a b c"}]}''\<close>
proof -
  have 1: "LF \<notin> set ''json''" by code_simp
  have 2: \<open>\<not> prefix fence (strip ''{"moments": [{"quote": "a b c"}]}'')\<close> by code_simp
  have 3: "list_all is_space []" by simp
  have 4: "list_all is_space [LF]" by code_simp
  from C9_fenced_response[OF 1 2 3 4] 1 2 show ?thesis by blast
qed

section \<open>Properties of the cache and of the orchestrator\<close>

lemma get_cache_path_cases:
  "get_cache_path s key = Inl OSError \<and> \<not> dir_exists s \<and> mkdir_fails s \<or>
   get_cache_path s key = Inr (CACHE_DIR @ ''/'' @ key @ ''.json'', s\<lparr>dir_exists := True\<rparr>) \<and>
     \<not> (\<not> dir_exists s \<and> mkdir_fails s)"
  by (cases "dir_exists s") (auto simp: get_cache_path_def get_cache_dir_def)

lemma get_cached_moments_state:
  "snd (get_cached_moments md5 s t md) = s \<or>
   snd (get_cached_moments md5 s t md) = s\<lparr>dir_exists := True\<rparr>"
  using get_cache_path_cases[of s "build_cache_key md5 t md"]
  by (auto simp: get_cached_moments_def split: option.splits file_content.splits gjson.splits)

lemma get_cached_moments_files:
  "files (snd (get_cached_moments md5 s t md)) = files s"
  using get_cached_moments_state[of md5 s t md] by auto

lemma get_cached_moments_again:
  "get_cached_moments md5 (snd (get_cached_moments md5 s t md)) t md = get_cached_moments md5 s t md"
proof -
  consider (fail) "get_cache_path s (build_cache_key md5 t md) = Inl OSError"
      "\<not> dir_exists s" "mkdir_fails s"
    | (ok) "get_cache_path s (build_cache_key md5 t md)
            = Inr (CACHE_DIR @ ''/'' @ build_cache_key md5 t md @ ''.json'', s\<lparr>dir_exists := True\<rparr>)"
    using get_cache_path_cases[of s "build_cache_key md5 t md"] by blast
  then show ?thesis
  proof cases
    case fail
    then show ?thesis by (simp add: get_cached_moments_def)
  next
    case ok
    let ?s' = "s\<lparr>dir_exists := True\<rparr>"
    have p': "get_cache_path ?s' (build_cache_key md5 t md)
            = Inr (CACHE_DIR @ ''/'' @ build_cache_key md5 t md @ ''.json'', ?s')"
      by (simp add: get_cache_path_def get_cache_dir_def)
    have sn: "snd (get_cached_moments md5 s t md) = ?s'"
      using ok
      by (auto simp: get_cached_moments_def CACHE_ENABLED_def
               split: option.splits file_content.splits gjson.splits)
    have g: "get_cached_moments md5 ?s' t md = get_cached_moments md5 s t md"
      unfolding get_cached_moments_def ok p' by (simp add: CACHE_ENABLED_def)
    from sn g show ?thesis by simp
  qed
qed







lemma cache_miss_absent:
  assumes "files s (CACHE_DIR @ ''/'' @ build_cache_key md5 t md @ ''.json'') = None"
  shows "fst (get_cached_moments md5 s t md) = None"
  using get_cache_path_cases[of s "build_cache_key md5 t md"] assms
  by (auto simp: get_cached_moments_def)

lemma process_single_chunk_llm_raises:
  "env_llm e (build_prompt_for_chunk chunk idx n) = Inl ex \<Longrightarrow>
   process_single_chunk e (chunk, idx, n) = []"
  by (simp add: process_single_chunk_def)

lemma process_single_chunk_parse_raises:
  "env_llm e (build_prompt_for_chunk chunk idx n) = Inr raw \<Longrightarrow>
   parse_moment_response (env_loads e) (env_ids e idx) raw = Inl ex \<Longrightarrow>
   process_single_chunk e (chunk, idx, n) = []"
  by (simp add: process_single_chunk_def)

lemma process_chunks_parallel_all_empty:
  assumes "\<forall>d\<in>set (chunk_tasks chunks). process_single_chunk e d = []"
  shows "process_chunks_parallel e chunks = []"
  using assms by (simp add: process_chunks_parallel_def)

lemma extract_moments_raises_iff:
  "(\<exists>ex. fst (extract_moments e s t md) = Inl ex) \<longleftrightarrow> strip t = []"
proof (cases "strip t = []")
  case True
  then show ?thesis by (simp add: extract_moments_def)
next
  case False
  obtain r s1 where g: "get_cached_moments (env_md5 e) s (strip t) md = (r, s1)"
    by (cases "get_cached_moments (env_md5 e) s (strip t) md")
  show ?thesis using False
    by (cases r) (simp_all add: extract_moments_def g Let_def)
qed

lemma extract_moments_miss:
  assumes "strip t \<noteq> []" and "fst (get_cached_moments (env_md5 e) s (strip t) md) = None"
  shows "extract_moments e s t md =
     (let s1 = snd (get_cached_moments (env_md5 e) s (strip t) md);
          all_moments = process_chunks_parallel e (chunk_transcript CHARS_PER_CHUNK (strip t))
      in if all_moments = [] then (Inr [], s1)
         else (Inr all_moments, save_moments_to_cache latin1 (env_md5 e) s1 all_moments (strip t) md))"
proof -
  obtain r s1 where g: "get_cached_moments (env_md5 e) s (strip t) md = (r, s1)"
    by (cases "get_cached_moments (env_md5 e) s (strip t) md")
  with assms(2) have r: "r = None" by simp
  show ?thesis using assms(1) by (simp add: extract_moments_def g r Let_def)
qed

lemma extract_moments_hit:
  assumes "strip t \<noteq> []" and "fst (get_cached_moments (env_md5 e) s (strip t) md) = Some ms"
  shows "extract_moments e s t md = (Inr ms, snd (get_cached_moments (env_md5 e) s (strip t) md))"
proof -
  obtain r s1 where g: "get_cached_moments (env_md5 e) s (strip t) md = (r, s1)"
    by (cases "get_cached_moments (env_md5 e) s (strip t) md")
  with assms(2) have r: "r = Some ms" by simp
  show ?thesis using assms(1) by (simp add: extract_moments_def g r Let_def)
qed

text \<open>
  Claim C3. \<open>extract_moments\<close> raises exactly when the transcript is empty or only
  whitespace. An exception of the model call or of the parser in one chunk gives no
  moments for that chunk. When the cache has no entry and every chunk gives no moments,
  the result is the empty list.
\<close>

theorem C3_raises_only_on_empty_transcript:
  "((\<exists>ex. fst (extract_moments e s t md) = Inl ex) \<longleftrightarrow> strip t = []) \<and>
   (\<forall>ex. env_llm e (build_prompt_for_chunk chunk idx n) = Inl ex \<longrightarrow>
         process_single_chunk e (chunk, idx, n) = []) \<and>
   (\<forall>raw ex. env_llm e (build_prompt_for_chunk chunk idx n) = Inr raw \<longrightarrow>
         parse_moment_response (env_loads e) (env_ids e idx) raw = Inl ex \<longrightarrow>
         process_single_chunk e (chunk, idx, n) = []) \<and>
   (strip t \<noteq> [] \<longrightarrow>
    fst (get_cached_moments (env_md5 e) s (strip t) md) = None \<longrightarrow>
    (\<forall>d\<in>set (chunk_tasks (chunk_transcript CHARS_PER_CHUNK (strip t))).
        process_single_chunk e d = []) \<longrightarrow>
    fst (extract_moments e s t md) = Inr [])"
proof (intro conjI allI impI)
  show "(\<exists>ex. fst (extract_moments e s t md) = Inl ex) \<longleftrightarrow> strip t = []"
    by (rule extract_moments_raises_iff)
next
  fix ex assume "env_llm e (build_prompt_for_chunk chunk idx n) = Inl ex"
  then show "process_single_chunk e (chunk, idx, n) = []"
    by (rule process_single_chunk_llm_raises)
next
  fix raw ex
  assume "env_llm e (build_prompt_for_chunk chunk idx n) = Inr raw"
    and "parse_moment_response (env_loads e) (env_ids e idx) raw = Inl ex"
  then show "process_single_chunk e (chunk, idx, n) = []"
    by (rule process_single_chunk_parse_raises)
next
  assume ne: "strip t \<noteq> []"
    and miss: "fst (get_cached_moments (env_md5 e) s (strip t) md) = None"
    and all: "\<forall>d\<in>set (chunk_tasks (chunk_transcript CHARS_PER_CHUNK (strip t))).
                process_single_chunk e d = []"
  from process_chunks_parallel_all_empty[OF all]
  show "fst (extract_moments e s t md) = Inr []"
    by (simp add: extract_moments_miss[OF ne miss])
qed

text \<open>
  The theorem where the model call fails for every chunk and where the model answers
  \<open>{"moments": null}\<close>, on which the parser raises: the result is the empty list. For a
  transcript of blanks the call raises.
\<close>

theorem C3_raises_only_on_empty_transcript_witness:
  \<open>fst (extract_moments (sample_env (\<lambda>p. Inl LLMError)) empty_fs ''Hello'' None) = Inr [] \<and>
   process_single_chunk (sample_env (\<lambda>p. Inr ''{"moments": null}'')) (''Hello'', 1, 1) = [] \<and>
   (\<exists>ex. fst (extract_moments (sample_env (\<lambda>p. Inl LLMError)) empty_fs ''   '' None) = Inl ex)\<close>
proof -
  let ?e = "sample_env (\<lambda>p. Inl LLMError)"
  let ?e2 = \<open>sample_env (\<lambda>p. Inr ''{"moments": null}'')\<close>
  note C3 = C3_raises_only_on_empty_transcript
  have ne: "strip ''Hello'' \<noteq> []" by code_simp
  have miss: "fst (get_cached_moments (env_md5 ?e) empty_fs (strip ''Hello'') None) = None"
    by (rule cache_miss_absent) (simp add: empty_fs_def)
  have all: "\<forall>d\<in>set (chunk_tasks (chunk_transcript CHARS_PER_CHUNK (strip ''Hello''))).
               process_single_chunk ?e d = []"
    by (auto simp: process_single_chunk_def sample_env_def)
  have 1: "fst (extract_moments ?e empty_fs ''Hello'' None) = Inr []"
    using C3[of ?e empty_fs "''Hello''" None] ne miss all by blast
  have l2: \<open>env_llm ?e2 (build_prompt_for_chunk ''Hello'' 1 1) = Inr ''{"moments": null}''\<close>
    by (simp add: sample_env_def)
  have p2: \<open>parse_moment_response (env_loads ?e2) (env_ids ?e2 1) ''{"moments": null}''
            = Inl TypeError\<close>
    unfolding sample_env_def env.simps by code_simp
  have 2: "process_single_chunk ?e2 (''Hello'', 1, 1) = []"
    using C3[of ?e2 _ _ _ "''Hello''" 1 1] l2 p2 by blast
  have b: "strip ''   '' = []" by code_simp
  have 3: "\<exists>ex. fst (extract_moments ?e empty_fs ''   '' None) = Inl ex"
    using C3[of ?e empty_fs "''   ''" None] b by blast
  from 1 2 3 show ?thesis by blast
qed




text \<open>
  Claim C10. When the cache has no entry for the transcript and the chunks give no moment,
  \<open>extract_moments\<close> returns the empty list and leaves the file system as the lookup left
  it: no file is written (the lookup may have created the cache directory). A later call
  for the same transcript and metadata misses the cache again and returns what its own
  model calls give. And a call changes a file of the cache only when it returns a list of
  moments, not empty, that it extracted.
\<close>

theorem C10_empty_result_not_cached:
  "(strip t \<noteq> [] \<longrightarrow>
    fst (get_cached_moments (env_md5 e) s (strip t) md) = None \<longrightarrow>
    process_chunks_parallel e (chunk_transcript CHARS_PER_CHUNK (strip t)) = [] \<longrightarrow>
    fst (extract_moments e s t md) = Inr [] \<and>
    snd (extract_moments e s t md) = snd (get_cached_moments (env_md5 e) s (strip t) md) \<and>
    files (snd (extract_moments e s t md)) = files s \<and>
    (\<forall>e'. env_md5 e' = env_md5 e \<longrightarrow>
       process_chunks_parallel e' (chunk_transcript CHARS_PER_CHUNK (strip t)) \<noteq> [] \<longrightarrow>
       fst (extract_moments e' (snd (extract_moments e s t md)) t md)
         = Inr (process_chunks_parallel e' (chunk_transcript CHARS_PER_CHUNK (strip t))))) \<and>
   (files (snd (extract_moments e s t md)) \<noteq> files s \<longrightarrow>
    process_chunks_parallel e (chunk_transcript CHARS_PER_CHUNK (strip t)) \<noteq> [] \<and>
    fst (extract_moments e s t md)
      = Inr (process_chunks_parallel e (chunk_transcript CHARS_PER_CHUNK (strip t))))"
proof (intro conjI impI)
  assume ne: "strip t \<noteq> []"
    and miss: "fst (get_cached_moments (env_md5 e) s (strip t) md) = None"
    and emp: "process_chunks_parallel e (chunk_transcript CHARS_PER_CHUNK (strip t)) = []"
  let ?s1 = "snd (get_cached_moments (env_md5 e) s (strip t) md)"
  have ex: "extract_moments e s t md = (Inr [], ?s1)"
    by (simp add: extract_moments_miss[OF ne miss] emp)
  show "fst (extract_moments e s t md) = Inr []" by (simp add: ex)
  show "snd (extract_moments e s t md) = ?s1" by (simp add: ex)
  show "files (snd (extract_moments e s t md)) = files s"
    by (simp add: ex get_cached_moments_files)
  show "\<forall>e'. env_md5 e' = env_md5 e \<longrightarrow>
       process_chunks_parallel e' (chunk_transcript CHARS_PER_CHUNK (strip t)) \<noteq> [] \<longrightarrow>
       fst (extract_moments e' (snd (extract_moments e s t md)) t md)
         = Inr (process_chunks_parallel e' (chunk_transcript CHARS_PER_CHUNK (strip t)))"
  proof (intro allI impI)
    fix e' assume m: "env_md5 e' = env_md5 e"
      and n: "process_chunks_parallel e' (chunk_transcript CHARS_PER_CHUNK (strip t)) \<noteq> []"
    have miss': "fst (get_cached_moments (env_md5 e') ?s1 (strip t) md) = None"
      unfolding m get_cached_moments_again by (rule miss)
    show "fst (extract_moments e' (snd (extract_moments e s t md)) t md)
         = Inr (process_chunks_parallel e' (chunk_transcript CHARS_PER_CHUNK (strip t)))"
      unfolding ex snd_conv using n by (simp add: extract_moments_miss[OF ne miss'] Let_def)
  qed
next
  assume ch: "files (snd (extract_moments e s t md)) \<noteq> files s"
  have ne: "strip t \<noteq> []"
  proof
    assume "strip t = []"
    then have "extract_moments e s t md = (Inl RuntimeError, s)"
      by (simp add: extract_moments_def)
    with ch show False by simp
  qed
  have miss: "fst (get_cached_moments (env_md5 e) s (strip t) md) = None"
  proof (cases "fst (get_cached_moments (env_md5 e) s (strip t) md)")
    case (Some ms)
    from extract_moments_hit[OF ne Some] ch show ?thesis
      by (simp add: get_cached_moments_files)
  qed simp
  have n: "process_chunks_parallel e (chunk_transcript CHARS_PER_CHUNK (strip t)) \<noteq> []"
  proof
    assume "process_chunks_parallel e (chunk_transcript CHARS_PER_CHUNK (strip t)) = []"
    then have "extract_moments e s t md
               = (Inr [], snd (get_cached_moments (env_md5 e) s (strip t) md))"
      by (simp add: extract_moments_miss[OF ne miss])
    with ch show False by (simp add: get_cached_moments_files)
  qed
  then show "process_chunks_parallel e (chunk_transcript CHARS_PER_CHUNK (strip t)) \<noteq> []" .
  from n show "fst (extract_moments e s t md)
      = Inr (process_chunks_parallel e (chunk_transcript CHARS_PER_CHUNK (strip t)))"
    by (simp add: extract_moments_miss[OF ne miss] Let_def)
qed

theorem C10_empty_result_not_cached_witness:
  \<open>fst (extract_moments (sample_env (\<lambda>p. Inr ''{"moments": []}'')) empty_fs ''Hello'' None)
     = Inr [] \<and>
   files (snd (extract_moments (sample_env (\<lambda>p. Inr ''{"moments": []}'')) empty_fs ''Hello'' None))
     = files empty_fs\<close>
proof -
  let ?e = \<open>sample_env (\<lambda>p. Inr ''{"moments": []}'')\<close>
  have ne: "strip ''Hello'' \<noteq> []" by code_simp
  have miss: "fst (get_cached_moments (env_md5 ?e) empty_fs (strip ''Hello'') None) = None"
    by (rule cache_miss_absent) (simp add: empty_fs_def)
  have p: \<open>parse_moment_response json_loads sample_ids ''{"moments": []}'' = Inr []\<close>
    by code_simp
  have "\<forall>d\<in>set (chunk_tasks (chunk_transcript CHARS_PER_CHUNK (strip ''Hello''))).
               process_single_chunk ?e d = []"
    by (auto simp: process_single_chunk_def sample_env_def p)
  then have emp: "process_chunks_parallel ?e (chunk_transcript CHARS_PER_CHUNK (strip ''Hello'')) = []"
    by (rule process_chunks_parallel_all_empty)
  from C10_empty_result_not_cached[of "''Hello''" ?e empty_fs None] ne miss emp
  show ?thesis by blast
qed

section \<open>The export for the clip cutter\<close>

text \<open>
  The loop of \<open>to_ffmpeg_json\<close> is compared with the derivation rule as the
  specification words it. The model stops at the list of records, before
  \<open>json.dumps\<close> serialises it.
\<close>

lemma strip_Nil: "strip [] = []"
  by (simp add: strip_def lstrip_def rstrip_def)

lemma cut_sheet_of_spec: "cut_sheet_of d = Inr cs \<Longrightarrow> spec_cut_sheet d = cs"
  by (auto simp: cut_sheet_of_def spec_cut_sheet_def dict_get_def Let_def
           split: if_splits option.splits gjson.splits)

lemma stripped_field_spec: "stripped_field cs k = Inr s \<Longrightarrow> field_text cs k = s"
  by (auto simp: stripped_field_def field_text_def dict_get_default_def strip_Nil
           split: option.splits gjson.splits)

lemma timestamps_of_spec: "timestamps_of d = Inr ts \<Longrightarrow> field_text d ''timestamps'' = ts"
  by (auto simp: timestamps_of_def field_text_def dict_get_def strip_Nil Let_def
           split: if_splits option.splits gjson.splits)

lemma no_duration_True: "no_duration v = Inr True \<Longrightarrow> spec_duration v = None"
  by (auto simp: no_duration_def spec_duration_def split: if_splits gjson.splits pyfloat.splits)

lemma no_duration_False:
  "no_duration v = Inr False \<Longrightarrow> plus_duration s v = Inr e \<Longrightarrow>
   \<exists>f. spec_duration v = Some f \<and> e = fadd (fadd s f) BUFFER"
  by (auto simp: no_duration_def spec_duration_def plus_duration_def
           split: if_splits gjson.splits pyfloat.splits sum.splits)

text \<open>The record of a clip, or nothing when a conversion raises.\<close>

lemma make_clip_Inr:
  "make_clip idx label s e = Inr r \<Longrightarrow>
   \<exists>st en. seconds_to_timestamp s = Inr st \<and> seconds_to_timestamp e = Inr en \<and>
     r = Some \<lparr>c_index = idx, c_label = label, c_start = st, c_end = en\<rparr>"
  by (auto simp: make_clip_def split: sum.splits)

lemma spec_clip_Some:
  assumes "spec_start_raw d = Some sr"
    and "spec_end_sec d (timestamp_to_seconds (normalize_timestamp sr)) = Some e"
    and "seconds_to_timestamp (timestamp_to_seconds (normalize_timestamp sr)) = Inr st"
    and "seconds_to_timestamp e = Inr en"
  shows "spec_clip idx (JObj d) =
     Some \<lparr>c_index = idx,
           c_label = (let l = dict_get (spec_cut_sheet d) ''clip_label''
                      in if truthy l then l else JStr (''CLIP_'' @ str_nat idx)),
           c_start = st, c_end = en\<rparr>"
  using assms by (simp add: spec_clip_def Let_def)

lemma ffmpeg_clip_of_spec:
  assumes A: "ffmpeg_clip_of idx m = Inr r"
  shows "spec_clip idx m = r"
proof -
  from A obtain d where m: "m = JObj d"
    by (cases m) (simp_all add: ffmpeg_clip_of_def)
  from A obtain cs where cs: "cut_sheet_of d = Inr cs"
    by (cases "cut_sheet_of d") (simp_all add: m ffmpeg_clip_of_def)
  from A obtain ip where ip: "stripped_field cs ''in_point'' = Inr ip"
    by (cases "stripped_field cs ''in_point''") (simp_all add: m ffmpeg_clip_of_def cs Let_def)
  note scs = cut_sheet_of_spec[OF cs]
  note sip = stripped_field_spec[OF ip]
  define label where "label = (if truthy (dict_get cs ''clip_label'')
      then dict_get cs ''clip_label'' else JStr (''CLIP_'' @ str_nat idx))"
  define start_opt where "start_opt =
     (if ip \<noteq> [] then Inr (Some ip)
      else (case timestamps_of d of Inl e \<Rightarrow> Inl e
            | Inr timestamps \<Rightarrow> Inr (map_option fst (match_range timestamps))))"
  have B: "(case start_opt of
              Inl e \<Rightarrow> Inl e
            | Inr None \<Rightarrow> Inr None
            | Inr (Some start_raw) \<Rightarrow>
                (let start_sec = timestamp_to_seconds (normalize_timestamp start_raw);
                     clip_duration = dict_get d ''clip_duration_seconds''
                 in case no_duration clip_duration of
                      Inl e \<Rightarrow> Inl e
                    | Inr True \<Rightarrow>
                        (case stripped_field cs ''out_point'' of
                           Inl e \<Rightarrow> Inl e
                         | Inr out_point \<Rightarrow>
                             if out_point \<noteq> [] then
                               make_clip idx label start_sec
                                 (timestamp_to_seconds (normalize_timestamp out_point))
                             else
                               (case timestamps_of d of
                                  Inl e \<Rightarrow> Inl e
                                | Inr timestamps \<Rightarrow>
                                    (case match_range timestamps of
                                       None \<Rightarrow> Inr None
                                     | Some (g1, end_raw) \<Rightarrow>
                                         make_clip idx label start_sec
                                           (timestamp_to_seconds
                                              (normalize_timestamp end_raw)))))
                    | Inr False \<Rightarrow>
                        (case plus_duration start_sec clip_duration of
                           Inl e \<Rightarrow> Inl e
                         | Inr end_sec \<Rightarrow> make_clip idx label start_sec end_sec))) = Inr r"
    unfolding label_def start_opt_def using A
    by (simp add: m ffmpeg_clip_of_def cs ip Let_def split del: if_split)
  from B obtain so where so: "start_opt = Inr so"
    by (cases start_opt) simp_all
  have ss: "spec_start_raw d = so"
  proof (cases "ip = []")
    case False
    with so show ?thesis by (simp add: start_opt_def spec_start_raw_def scs sip)
  next
    case True
    with so obtain ts where ts: "timestamps_of d = Inr ts"
      by (cases "timestamps_of d") (simp_all add: start_opt_def)
    from so True ts show ?thesis
      by (simp add: start_opt_def spec_start_raw_def scs sip timestamps_of_spec[OF ts])
  qed
  show ?thesis
  proof (cases so)
    case None
    with B so have "r = None" by simp
    with None ss show ?thesis by (simp add: spec_clip_def m)
  next
    case (Some sr)
    let ?start = "timestamp_to_seconds (normalize_timestamp sr)"
    let ?cd = "dict_get d ''clip_duration_seconds''"
    from B so Some obtain b where b: "no_duration ?cd = Inr b"
      by (cases "no_duration ?cd") (simp_all add: Let_def)
    have C: "\<exists>e. (spec_end_sec d ?start = None \<and> r = None) \<or>
                 (spec_end_sec d ?start = Some e \<and> make_clip idx label ?start e = Inr r)"
    proof (cases b)
      case False
      with B so Some b obtain e where e: "plus_duration ?start ?cd = Inr e"
        and mk: "make_clip idx label ?start e = Inr r"
        by (cases "plus_duration ?start ?cd") (simp_all add: Let_def)
      from b False have "no_duration ?cd = Inr False" by simp
      from no_duration_False[OF this e] obtain f
        where "spec_duration ?cd = Some f" "e = fadd (fadd ?start f) BUFFER" by blast
      with mk show ?thesis by (auto simp: spec_end_sec_def)
    next
      case True
      from b True have "no_duration ?cd = Inr True" by simp
      note nd = no_duration_True[OF this]
      from B so Some b True obtain op where op: "stripped_field cs ''out_point'' = Inr op"
        by (cases "stripped_field cs ''out_point''") (simp_all add: Let_def)
      note sop = stripped_field_spec[OF op]
      show ?thesis
      proof (cases "op = []")
        case False
        with B so Some b True op
        have "make_clip idx label ?start (timestamp_to_seconds (normalize_timestamp op)) = Inr r"
          by (simp add: Let_def)
        with False show ?thesis by (auto simp: spec_end_sec_def nd scs sop)
      next
        case opn: True
        with B so Some b True op obtain ts where ts: "timestamps_of d = Inr ts"
          by (cases "timestamps_of d") (simp_all add: Let_def)
        note sts = timestamps_of_spec[OF ts]
        show ?thesis
        proof (cases "match_range ts")
          case None
          with B so Some b True op opn ts have "r = None" by (simp add: Let_def)
          with None opn show ?thesis by (auto simp: spec_end_sec_def nd scs sop sts)
        next
          case (Some ge)
          obtain g1 end_raw where ge: "ge = (g1, end_raw)" by (cases ge)
          from B so \<open>so = Some sr\<close> b True op opn ts Some ge
          have "make_clip idx label ?start (timestamp_to_seconds (normalize_timestamp end_raw)) = Inr r"
            by (simp add: Let_def)
          with Some ge opn show ?thesis by (auto simp: spec_end_sec_def nd scs sop sts)
        qed
      qed
    qed
    then obtain e where "(spec_end_sec d ?start = None \<and> r = None) \<or>
                 (spec_end_sec d ?start = Some e \<and> make_clip idx label ?start e = Inr r)" ..
    then show ?thesis
    proof
      assume "spec_end_sec d ?start = None \<and> r = None"
      with ss Some show ?thesis by (simp add: spec_clip_def m Let_def)
    next
      assume a: "spec_end_sec d ?start = Some e \<and> make_clip idx label ?start e = Inr r"
      from make_clip_Inr[of idx label ?start e r] a obtain st en where
        st: "seconds_to_timestamp ?start = Inr st" and en: "seconds_to_timestamp e = Inr en"
        and r: "r = Some \<lparr>c_index = idx, c_label = label, c_start = st, c_end = en\<rparr>" by blast
      from ss Some have "spec_start_raw d = Some sr" by simp
      from spec_clip_Some[OF this _ st en, of idx] a r show ?thesis
        by (simp add: m label_def scs Let_def)
    qed
  qed
qed

lemma ffmpeg_clips_from_spec:
  "ffmpeg_clips_from idx ms = Inr clips \<Longrightarrow> clips = spec_clips_from idx ms"
proof (induction ms arbitrary: idx clips)
  case Nil
  then show ?case by simp
next
  case (Cons m ms)
  from Cons.prems obtain r rest where r: "ffmpeg_clip_of idx m = Inr r"
    and rest: "ffmpeg_clips_from (Suc idx) ms = Inr rest"
    and clips: "clips = (case r of None \<Rightarrow> rest | Some c \<Rightarrow> c # rest)"
    by (auto split: sum.splits)
  from Cons.IH[OF rest] ffmpeg_clip_of_spec[OF r] clips show ?case
    by (cases r) simp_all
qed

lemma spec_clip_index: "spec_clip idx m = Some c \<Longrightarrow> c_index c = idx"
  by (auto simp: spec_clip_def Let_def split: gjson.splits option.splits sum.splits)

lemma spec_clips_from_indices:
  "sorted_wrt (<) (map c_index (spec_clips_from idx ms)) \<and>
   (\<forall>c\<in>set (spec_clips_from idx ms). idx \<le> c_index c \<and> c_index c < idx + length ms \<and>
        spec_clip (c_index c) (ms ! (c_index c - idx)) = Some c)"
proof (induction ms arbitrary: idx)
  case Nil
  then show ?case by simp
next
  case (Cons m ms)
  have IH1: "sorted_wrt (<) (map c_index (spec_clips_from (Suc idx) ms))"
    and IH2: "\<And>c. c \<in> set (spec_clips_from (Suc idx) ms) \<Longrightarrow>
        Suc idx \<le> c_index c \<and> c_index c < Suc idx + length ms \<and>
        spec_clip (c_index c) (ms ! (c_index c - Suc idx)) = Some c"
    using Cons.IH[of "Suc idx"] by auto
  have tail: "\<And>c. c \<in> set (spec_clips_from (Suc idx) ms) \<Longrightarrow>
        idx \<le> c_index c \<and> c_index c < idx + length (m # ms) \<and>
        spec_clip (c_index c) ((m # ms) ! (c_index c - idx)) = Some c"
  proof -
    fix c assume c: "c \<in> set (spec_clips_from (Suc idx) ms)"
    from IH2[OF c] have 1: "Suc idx \<le> c_index c" "c_index c < Suc idx + length ms"
      and 2: "spec_clip (c_index c) (ms ! (c_index c - Suc idx)) = Some c" by auto
    from 1 have "c_index c - idx = Suc (c_index c - Suc idx)" by simp
    with 1 2 show "idx \<le> c_index c \<and> c_index c < idx + length (m # ms) \<and>
        spec_clip (c_index c) ((m # ms) ! (c_index c - idx)) = Some c" by simp
  qed
  show ?case
  proof (cases "spec_clip idx m")
    case None
    with IH1 tail show ?thesis by simp
  next
    case (Some c0)
    have i0: "c_index c0 = idx" by (rule spec_clip_index[OF Some])
    have lt: "\<forall>c\<in>set (spec_clips_from (Suc idx) ms). c_index c0 < c_index c"
      using IH2 i0 by fastforce
    from Some IH1 lt tail i0 show ?thesis by auto
  qed
qed

lemma spec_clips_from_all:
  "length (spec_clips_from idx ms) = length ms \<Longrightarrow>
   map c_index (spec_clips_from idx ms) = [idx ..< idx + length ms]"
proof (induction ms arbitrary: idx)
  case Nil
  then show ?case by simp
next
  case (Cons m ms)
  have le: "length (spec_clips_from (Suc idx) ms) \<le> length ms" for idx
    by (induction ms arbitrary: idx) (auto split: option.splits simp: le_SucI)
  show ?case
  proof (cases "spec_clip idx m")
    case None
    with Cons.prems le[of idx] show ?thesis by simp
  next
    case (Some c0)
    with Cons.prems have "length (spec_clips_from (Suc idx) ms) = length ms" by simp
    have e: "[idx ..< idx + length (m # ms)] = idx # [Suc idx ..< Suc idx + length ms]"
      using upt_conv_Cons[of idx "idx + length (m # ms)"] by (simp del: upt_Suc)
    show ?thesis unfolding e
      using Cons.IH[OF \<open>length (spec_clips_from (Suc idx) ms) = length ms\<close>]
        Some spec_clip_index[OF Some]
      by (simp del: upt_Suc)
  qed
qed

text \<open>
  The export raises for a moment whose fields have the wrong type: a cut sheet that is
  not an object has no \<open>get\<close>, and a duration that is a string cannot be compared
  with zero.
\<close>

lemma to_ffmpeg_json_raises:
  "to_ffmpeg_json [JObj [(''editor_cut_sheet'', JStr ''x'')]] = Inl AttributeError \<and>
   to_ffmpeg_json [JObj [(''timestamps'', JStr ''0:01-0:02''),
                         (''clip_duration_seconds'', JStr ''5'')]] = Inl TypeError"
  by (rule conjI; code_simp)

text \<open>
  Claim C6, as stated: the export produces records whose index is 1-based sequential.
  It fails when a moment is skipped. The first of the two moments of
  \<open>sample_moments\<close> has neither an in-point nor a timestamp range, so the loop
  continues without a record for it; the only record of the output is the one of the
  second moment and carries the index 2, the position of that moment in the input, and
  the label \<open>CLIP_2\<close>. The indices of the output are \<open>[2]\<close>, not \<open>[1]\<close>.
\<close>

theorem C6_skipped_moment_counterexample:
  "to_ffmpeg_json sample_moments =
     Inr [\<lparr>c_index = 2, c_label = JStr ''CLIP_2'',
           c_start = ''00:00:01.00'', c_end = ''00:00:08.00''\<rparr>]"
  unfolding sample_moments_def by code_simp

text \<open>
  Claim C6, amended. Whenever the export returns, its records are those of the derivation
  rule, in the order of the input: one record for each moment that has a start (the
  in-point of the cut sheet when there is one, else the start of the timestamp range)
  and an end (the start plus the duration plus the buffer of four seconds when the
  duration is positive, else the out-point, else the end of the timestamp range), and
  none for the other moments. The index of a record is the 1-based position of its moment
  in the input list: the indices are strictly increasing, lie between 1 and the number of
  moments, and are \<open>1, 2, \<dots>, n\<close> exactly when no moment is skipped.
\<close>

theorem C6_ffmpeg_export:
  assumes "to_ffmpeg_json ms = Inr clips"
  shows "clips = spec_clips_from 1 ms \<and>
         sorted_wrt (<) (map c_index clips) \<and>
         (\<forall>c\<in>set clips. 1 \<le> c_index c \<and> c_index c \<le> length ms \<and>
              spec_clip (c_index c) (ms ! (c_index c - 1)) = Some c) \<and>
         (length clips = length ms \<longrightarrow> map c_index clips = [1 ..< Suc (length ms)])"
proof -
  from assms have e: "clips = spec_clips_from 1 ms"
    unfolding to_ffmpeg_json_def by (rule ffmpeg_clips_from_spec)
  from spec_clips_from_indices[of 1 ms]
  have s: "sorted_wrt (<) (map c_index clips)"
    and a: "\<And>c. c \<in> set clips \<Longrightarrow> 1 \<le> c_index c \<and> c_index c < 1 + length ms \<and>
              spec_clip (c_index c) (ms ! (c_index c - 1)) = Some c"
    unfolding e by auto
  have q: "\<forall>c\<in>set clips. 1 \<le> c_index c \<and> c_index c \<le> length ms \<and>
              spec_clip (c_index c) (ms ! (c_index c - 1)) = Some c"
  proof
    fix c assume "c \<in> set clips"
    from a[OF this] show "1 \<le> c_index c \<and> c_index c \<le> length ms \<and>
              spec_clip (c_index c) (ms ! (c_index c - 1)) = Some c" by simp
  qed
  have l: "length clips = length ms \<longrightarrow> map c_index clips = [1 ..< Suc (length ms)]"
  proof
    assume "length clips = length ms"
    then have "length (spec_clips_from 1 ms) = length ms" by (simp add: e)
    from spec_clips_from_all[OF this] show "map c_index clips = [1 ..< Suc (length ms)]"
      by (simp add: e del: upt_Suc)
  qed
  from e s q l show ?thesis by blast
qed

theorem C6_ffmpeg_export_witness:
  "to_ffmpeg_json sample_cut_moments =
     Inr [\<lparr>c_index = 1, c_label = JStr ''HOOK'',
           c_start = ''00:00:10.00'', c_end = ''00:00:19.00''\<rparr>,
          \<lparr>c_index = 2, c_label = JStr ''CLIP_2'',
           c_start = ''00:01:02.50'', c_end = ''00:01:09.50''\<rparr>] \<and>
   spec_clips_from 1 sample_cut_moments =
     [\<lparr>c_index = 1, c_label = JStr ''HOOK'',
       c_start = ''00:00:10.00'', c_end = ''00:00:19.00''\<rparr>,
      \<lparr>c_index = 2, c_label = JStr ''CLIP_2'',
       c_start = ''00:01:02.50'', c_end = ''00:01:09.50''\<rparr>] \<and>
   spec_clip 2 (sample_cut_moments ! 1) =
     Some \<lparr>c_index = 2, c_label = JStr ''CLIP_2'',
           c_start = ''00:01:02.50'', c_end = ''00:01:09.50''\<rparr>"
proof -
  have e: "to_ffmpeg_json sample_cut_moments =
     Inr [\<lparr>c_index = 1, c_label = JStr ''HOOK'',
           c_start = ''00:00:10.00'', c_end = ''00:00:19.00''\<rparr>,
          \<lparr>c_index = 2, c_label = JStr ''CLIP_2'',
           c_start = ''00:01:02.50'', c_end = ''00:01:09.50''\<rparr>]"
    unfolding sample_cut_moments_def by code_simp
  from C6_ffmpeg_export[OF e] e show ?thesis by simp
qed
end
